theory Spec2Isabelle
  imports Main "HOL-Library.Sublist"
begin

section \<open>Python strings\<close>

text \<open>
  A Python \<open>str\<close> is modelled as a \<open>string\<close>, one \<open>char\<close> per code point; the model
  covers texts whose code points are below 256.  \<open>len\<close> is \<open>length\<close>, \<open>s[:n]\<close> with
  \<open>n \<ge> 0\<close> is \<open>take n s\<close>, \<open>s[n:]\<close> is \<open>drop n s\<close>, \<open>a in b\<close> on strings is
  \<open>sublist a b\<close> and \<open>s.startswith(p)\<close> is \<open>prefix p s\<close>.
\<close>

definition isspace :: "char \<Rightarrow> bool" where
  \<comment> \<open>\<open>str.isspace\<close> on one code point below 256: TAB..CR, FS..US, space, NEL, NBSP\<close>
  "isspace c =
     (of_char c \<in> {9, 10, 11, 12, 13, 28, 29, 30, 31, 32, 133, 160 :: nat})"

definition lstrip :: "string \<Rightarrow> string" where
  "lstrip s = dropWhile isspace s"

definition rstrip :: "string \<Rightarrow> string" where
  "rstrip s = rev (dropWhile isspace (rev s))"

definition strip :: "string \<Rightarrow> string" where
  "strip s = rstrip (lstrip s)"

definition startswith :: "string \<Rightarrow> string \<Rightarrow> bool" where
  "startswith s p = prefix p s"

fun split_nl :: "string \<Rightarrow> string list" where
  \<comment> \<open>\<open>s.split('\n')\<close>: never empty, one more piece than there are newlines\<close>
  "split_nl [] = [[]]"
| "split_nl (c # cs) =
     (if c = CHR 0x0A then [] # split_nl cs
      else (case split_nl cs of [] \<Rightarrow> [[c]] | l # ls \<Rightarrow> (c # l) # ls))"

fun join_nl :: "string list \<Rightarrow> string" where
  \<comment> \<open>\<open>'\n'.join(ls)\<close>\<close>
  "join_nl [] = []"
| "join_nl [l] = l"
| "join_nl (l # ls) = l @ [CHR 0x0A] @ join_nl ls"

definition isdigit :: "char \<Rightarrow> bool" where
  \<comment> \<open>the regular expression class \<open>\d\<close> on a code point below 256\<close>
  "isdigit c = (48 \<le> (of_char c :: nat) \<and> (of_char c :: nat) \<le> 57)"

definition match_numbered :: "string \<Rightarrow> string option" where
  \<comment> \<open>\<open>re.match(r'^\d+\. ', line)\<close>: the matched text (\<open>group(0)\<close>), or None\<close>
  "match_numbered line =
     (let ds = takeWhile isdigit line in
      if ds \<noteq> [] \<and> prefix ''. '' (drop (length ds) line)
      then Some (ds @ ''. '') else None)"

section \<open>MarkdownToNotion\<close>

datatype block =
    Heading nat string
  | Paragraph string
  | ListItem string
  | Quote string
  | Code string string
  | Divider

text \<open>
  A block is the dictionary the source builds: \<open>Heading n t\<close> has type \<open>heading_n\<close>,
  \<open>ListItem\<close> is \<open>bulleted_list_item\<close>, and \<open>Code c l\<close> carries the stored language
  (\<open>plain text\<close> when the caller gave none).
\<close>

definition create_heading :: "nat \<Rightarrow> string \<Rightarrow> block" where
  "create_heading level t = Heading level (take 2000 t)"

definition create_paragraph :: "string \<Rightarrow> block" where
  "create_paragraph t = Paragraph (take 2000 t)"

definition create_list_item :: "string \<Rightarrow> block" where
  "create_list_item t = ListItem (take 2000 t)"

definition create_code :: "string \<Rightarrow> string option \<Rightarrow> block" where
  "create_code code language =
     Code (take 2000 code)
       (case language of None \<Rightarrow> ''plain text''
        | Some l \<Rightarrow> if l \<noteq> [] then l else ''plain text'')"

definition create_quote :: "string \<Rightarrow> block" where
  "create_quote t = Quote (take 2000 t)"

definition create_divider :: block where
  "create_divider = Divider"

function parse_list_loop ::
  "string list \<Rightarrow> string \<Rightarrow> nat \<Rightarrow> block list \<Rightarrow> block list" where
  "parse_list_loop lines list_type i blocks =
     (if i < length lines then
        (let line = rstrip (lines ! i) in
         if strip line = [] then parse_list_loop lines list_type (i + 1) blocks
         else if list_type = ''-'' \<and> startswith line ''- '' then
           parse_list_loop lines list_type (i + 1)
             (blocks @ [create_list_item (strip (drop (length ''- '') line))])
         else if list_type = ''numbered'' \<and> match_numbered line \<noteq> None then
           parse_list_loop lines list_type (i + 1)
             (blocks @
              [create_list_item (strip (drop (length (the (match_numbered line))) line))])
         else blocks)
      else blocks)"
  by pat_completeness auto
termination
  by (relation "measure (\<lambda>(lines, list_type, i, blocks). length lines - i)") auto

definition parse_list :: "string list \<Rightarrow> nat \<Rightarrow> string \<Rightarrow> block list" where
  "parse_list lines start list_type = parse_list_loop lines list_type start []"

function skip_list :: "string list \<Rightarrow> nat \<Rightarrow> string \<Rightarrow> nat" where
  "skip_list lines i list_type =
     (if i < length lines then
        (let line = rstrip (lines ! i) in
         if strip line = [] then skip_list lines (i + 1) list_type
         else if (list_type = ''-'' \<and> startswith line ''- '')
               \<or> (list_type = ''numbered'' \<and> match_numbered line \<noteq> None)
         then skip_list lines (i + 1) list_type
         else i)
      else i)"
  by pat_completeness auto
termination
  by (relation "measure (\<lambda>(lines, i, list_type). length lines - i)") auto

function parse_code_loop ::
  "string list \<Rightarrow> nat \<Rightarrow> string list \<Rightarrow> string list \<times> nat" where
  "parse_code_loop lines i code_lines =
     (if i < length lines then
        (if strip (lines ! i) = ''```'' then (code_lines, i + 1)
         else parse_code_loop lines (i + 1) (code_lines @ [rstrip (lines ! i)]))
      else (code_lines, i))"
  by pat_completeness auto
termination
  by (relation "measure (\<lambda>(lines, i, code_lines). length lines - i)") auto

definition parse_code_block :: "string list \<Rightarrow> nat \<Rightarrow> string list \<times> nat" where
  "parse_code_block lines start = parse_code_loop lines (start + 1) []"

function table_loop :: "string list \<Rightarrow> nat \<Rightarrow> string \<Rightarrow> string \<times> nat" where
  \<comment> \<open>the inner \<open>while\<close> of the table branch of \<open>convert\<close>, returning \<open>(table_text, j)\<close>\<close>
  "table_loop lines j table_text =
     (if j < length lines \<and> CHR ''|'' \<in> set (lines ! j)
      then table_loop lines (j + 1) (table_text @ [CHR 0x0A] @ lines ! j)
      else (table_text, j))"
  by pat_completeness auto
termination
  by (relation "measure (\<lambda>(lines, j, table_text). length lines - j)") auto

text \<open>
  One iteration of the \<open>while\<close> loop of \<open>convert\<close> at a non-blank line \<open>lines[i]\<close>:
  the index the iteration leaves in \<open>i\<close> and the blocks it appends.
\<close>

definition convert_step :: "string list \<Rightarrow> nat \<Rightarrow> nat \<times> block list" where
  "convert_step lines i =
     (let line = rstrip (lines ! i) in
      if startswith line ''# '' then (i + 1, [create_heading 1 (drop 2 line)])
      else if startswith line ''## '' then (i + 1, [create_heading 2 (drop 3 line)])
      else if startswith line ''### '' then (i + 1, [create_heading 3 (drop 4 line)])
      else if startswith line ''- '' \<or> startswith line ''* '' then
        (skip_list lines i ''-'', parse_list lines i ''-'')
      else if match_numbered line \<noteq> None then
        (skip_list lines i ''numbered'', parse_list lines i ''numbered'')
      else if startswith line ''> '' then (i + 1, [create_quote (drop 2 line)])
      else if startswith line ''```'' then
        (let (code_lines, new_i) = parse_code_block lines i;
             lang = (if length (lines ! i) > 3 then strip (drop 3 (lines ! i)) else [])
         in (new_i,
             [create_code (join_nl code_lines) (if lang \<noteq> [] then Some lang else None)]))
      else if strip line \<in> {''---'', ''***'', ''___''} then (i + 1, [create_divider])
      else if CHR ''|'' \<in> set line \<and> count_list line CHR ''|'' \<ge> 3 then
        (let (table_text, j) = table_loop lines (i + 1) line
         in (j, [create_code table_text (Some ''markdown-table'')]))
      else (i + 1, [create_paragraph line]))"

text \<open>
  The \<open>while\<close> loop of \<open>convert\<close>.  Nothing in the source bounds the number of
  iterations, so the loop is a partial function: \<open>None\<close> is a run that never returns.
\<close>

partial_function (option) convert_loop ::
  "string list \<Rightarrow> nat \<Rightarrow> block list \<Rightarrow> block list option" where
  "convert_loop lines i blocks =
     (if i < length lines then
        (if strip (rstrip (lines ! i)) = [] then convert_loop lines (i + 1) blocks
         else convert_loop lines (fst (convert_step lines i))
                (blocks @ snd (convert_step lines i)))
      else Some blocks)"

declare convert_loop.simps [code]

definition convert :: "string \<Rightarrow> block list option" where
  "convert t = convert_loop (split_nl t) 0 []"

text \<open>
  The conditions the list loops test on a line, named for the statements below:
  a blank line, a line of the run's list type, the text of its item, and the run that
  starts a list of lines (taken while a line is blank or of the list type).
\<close>

definition blank_line :: "string \<Rightarrow> bool" where
  "blank_line l = (strip (rstrip l) = [])"

definition list_line :: "string \<Rightarrow> string \<Rightarrow> bool" where
  "list_line list_type l =
     (list_type = ''-'' \<and> startswith (rstrip l) ''- ''
      \<or> list_type = ''numbered'' \<and> match_numbered (rstrip l) \<noteq> None)"

definition item_text :: "string \<Rightarrow> string \<Rightarrow> string" where
  "item_text list_type l =
     (if list_type = ''-'' then strip (drop (length ''- '') (rstrip l))
      else strip (drop (length (the (match_numbered (rstrip l)))) (rstrip l)))"

definition list_run :: "string \<Rightarrow> string list \<Rightarrow> string list" where
  "list_run list_type ls = takeWhile (\<lambda>l. blank_line l \<or> list_line list_type l) ls"

section \<open>MemoryParser\<close>

text \<open>
  An entry is the dictionary the parser builds.  The key \<open>body\<close> is absent until the
  entry is flushed, and \<open>date\<close> is absent on entries of MEMORY.md.  The keys
  \<open>section\<close> and \<open>file\<close> are the fields \<open>section_name\<close> and \<open>file_name\<close>.
\<close>

record entry =
  title :: string
  source :: string
  section_name :: string
  file_name :: string
  date :: "string option"
  body :: "string option"

text \<open>
  The dictionaries are mutable objects and the list \<open>entries\<close> holds references to
  them, so the state of a scan has a heap of entries and \<open>entries\<close> and
  \<open>current_entry\<close> are indices into it.
\<close>

record scan =
  heap :: "entry list"
  entries :: "nat list"
  current_section :: "string option"
  current_entry :: "nat option"
  entry_buffer :: "string list"

definition scan_init :: scan where
  "scan_init = \<lparr>heap = [], entries = [], current_section = None, current_entry = None,
     entry_buffer = []\<rparr>"

definition flush :: "scan \<Rightarrow> scan" where
  \<comment> \<open>\<open>if current_entry and entry_buffer:\<close> set the body, append the entry, empty the buffer\<close>
  "flush s =
     (case current_entry s of
        None \<Rightarrow> s
      | Some r \<Rightarrow>
          if entry_buffer s \<noteq> [] then
            s\<lparr>heap := (heap s)[r := (heap s ! r)\<lparr>body := Some (strip (join_nl (entry_buffer s)))\<rparr>],
              entries := entries s @ [r],
              entry_buffer := []\<rparr>
          else s)"

text \<open>
  The body of the \<open>for line in lines\<close> loop.  The two parsers have the same loop and
  differ in the test that recognizes a section title and in the fields of a new entry,
  which are the parameters \<open>recognized\<close> and \<open>new_entry\<close> (title, then section).
\<close>

definition scan_line ::
  "(string \<Rightarrow> bool) \<Rightarrow> (string \<Rightarrow> string \<Rightarrow> entry) \<Rightarrow> scan \<Rightarrow> string \<Rightarrow> scan" where
  "scan_line recognized new_entry s line =
     (if startswith line ''## '' then
        (let s1 = flush s; section_title = strip (drop 3 line) in
         s1\<lparr>current_section :=
              (if recognized section_title then Some section_title else None)\<rparr>)
      else if startswith line ''### '' \<and> current_section s \<noteq> None
              \<and> current_section s \<noteq> Some [] then
        (let s1 = flush s; entry_title = strip (drop 4 line) in
         s1\<lparr>heap := heap s1 @ [new_entry entry_title (the (current_section s))],
            current_entry := Some (length (heap s1))\<rparr>)
      else if current_entry s \<noteq> None then s\<lparr>entry_buffer := entry_buffer s @ [line]\<rparr>
      else s)"

definition scan_file ::
  "(string \<Rightarrow> bool) \<Rightarrow> (string \<Rightarrow> string \<Rightarrow> entry) \<Rightarrow> scan \<Rightarrow> string \<Rightarrow> scan" where
  \<comment> \<open>one file: fresh section, entry and buffer; the loop; the flush after the loop\<close>
  "scan_file recognized new_entry s content =
     flush (foldl (scan_line recognized new_entry)
       (s\<lparr>current_section := None, current_entry := None, entry_buffer := []\<rparr>)
       (split_nl content))"

definition deref :: "scan \<Rightarrow> entry list" where
  \<comment> \<open>the returned list, each reference read from the heap\<close>
  "deref s = map (\<lambda>r. heap s ! r) (entries s)"

definition memory_recognized :: "string \<Rightarrow> bool" where
  "memory_recognized section_title =
     list_ex (\<lambda>kw. sublist kw section_title)
       [''Standard'', ''Protocol'', ''Lesson'', ''Framework'']"

definition memory_entry :: "string \<Rightarrow> string \<Rightarrow> entry" where
  "memory_entry entry_title sec =
     \<lparr>title = entry_title, source = ''MEMORY.md'', section_name = sec, file_name = ''MEMORY.md'',
      date = None, body = None\<rparr>"

text \<open>
  The file system is a map from a path under the workspace to the text of the file,
  \<open>None\<close> where no file exists.
\<close>

definition parse_memory_file :: "(string \<Rightarrow> string option) \<Rightarrow> entry list" where
  "parse_memory_file fs =
     (case fs ''MEMORY.md'' of
        None \<Rightarrow> []
      | Some content \<Rightarrow> deref (scan_file memory_recognized memory_entry scan_init content))"

definition lower_char :: "char \<Rightarrow> char" where
  \<comment> \<open>\<open>str.lower\<close> on one code point below 256\<close>
  "lower_char c =
     (let n = (of_char c :: nat) in
      if (65 \<le> n \<and> n \<le> 90) \<or> (192 \<le> n \<and> n \<le> 222 \<and> n \<noteq> 215)
      then char_of (n + 32) else c)"

definition lower :: "string \<Rightarrow> string" where
  "lower s = map lower_char s"

definition daily_recognized :: "string \<Rightarrow> bool" where
  "daily_recognized section_title =
     list_ex (\<lambda>keyword. sublist keyword (lower section_title))
       [''research'', ''finding'', ''lesson'', ''decision'', ''insight'', ''pattern'',
        ''key takeaway'', ''benchmark'']"

definition daily_entry :: "string \<Rightarrow> string \<Rightarrow> string \<Rightarrow> entry" where
  "daily_entry date_str entry_title sec =
     \<lparr>title = entry_title, source = ''daily'', section_name = sec, file_name = date_str @ ''.md'',
      date = Some date_str, body = None\<rparr>"

definition daily_file :: "(string \<Rightarrow> string option) \<Rightarrow> scan \<Rightarrow> string \<Rightarrow> scan" where
  \<comment> \<open>one round of the loop over the days: a missing file is skipped\<close>
  "daily_file fs s date_str =
     (case fs (''memory/'' @ date_str @ ''.md'') of
        None \<Rightarrow> s
      | Some content \<Rightarrow> scan_file daily_recognized (daily_entry date_str) s content)"

text \<open>
  \<open>date_strs\<close> is the window: the dates of today and of the days before it, formatted,
  in the order of the loop \<open>for i in range(days_back)\<close>.
\<close>

definition parse_daily_files :: "(string \<Rightarrow> string option) \<Rightarrow> string list \<Rightarrow> entry list" where
  "parse_daily_files fs date_strs = deref (foldl (daily_file fs) scan_init date_strs)"

datatype error = KeyError string

definition content_hash :: "(string \<Rightarrow> string) \<Rightarrow> entry \<Rightarrow> error + string" where
  \<comment> \<open>\<open>md5\<close> stands for \<open>hashlib.md5(s.encode()).hexdigest()\<close>, which is not part of the
      program; \<open>entry['body']\<close> raises where the key is absent\<close>
  "content_hash md5 e =
     (case body e of
        None \<Rightarrow> Inl (KeyError ''body'')
      | Some b \<Rightarrow>
          Inr (take 16 (md5 (title e @ ''|'' @ (case date e of None \<Rightarrow> [] | Some d \<Rightarrow> d)
                             @ ''|'' @ take 200 b))))"

fun dedup_loop ::
  "(string \<Rightarrow> string) \<Rightarrow> entry list \<Rightarrow> string set \<Rightarrow> entry list \<Rightarrow> error + entry list" where
  "dedup_loop md5 [] seen unique_entries = Inr unique_entries"
| "dedup_loop md5 (e # es) seen unique_entries =
     (case content_hash md5 e of
        Inl err \<Rightarrow> Inl err
      | Inr h \<Rightarrow>
          if h \<notin> seen then dedup_loop md5 es (insert h seen) (unique_entries @ [e])
          else dedup_loop md5 es seen unique_entries)"

definition extract_all_entries ::
  "(string \<Rightarrow> string) \<Rightarrow> (string \<Rightarrow> string option) \<Rightarrow> string list \<Rightarrow> error + entry list" where
  "extract_all_entries md5 fs date_strs =
     dedup_loop md5 (parse_memory_file fs @ parse_daily_files fs date_strs) {} []"







section \<open>EntryClassifier\<close>

text \<open>
  The keyword tables are dictionaries, which iterate in insertion order: lists of pairs.
\<close>

definition TYPE_KEYWORDS :: "(string \<times> string list) list" where
  "TYPE_KEYWORDS =
     [(''Research'', [''research'', ''benchmark'', ''analysis'', ''comparison'',
         ''technical deep dive'', ''performance'', ''detailed breakdown'']),
      (''Lesson'', [''lesson'', ''learned'', ''mistake'', ''error'', ''issue'', ''problem'',
         ''fixed'', ''resolved'', ''blocker'']),
      (''Decision'', [''decision'', ''choose'', ''selected'', ''opted'', ''concluded'',
         ''determined'', ''agreed'', ''strategy'']),
      (''Pattern'', [''pattern'', ''trend'', ''recurring'', ''common'', ''usually'',
         ''typically'', ''observation'']),
      (''Tutorial'', [''how to'', ''tutorial'', ''guide'', ''step'', ''instruction'',
         ''walkthrough'', ''setup'', ''configure'']),
      (''Reference'', [''reference'', ''cheatsheet'', ''spec'', ''specification'',
         ''documentation'', ''api'', ''quick reference'']),
      (''Insight'', [''insight'', ''realized'', ''noticed'', ''observed'', ''thought'',
         ''idea'', ''aha'', ''epiphany''])]"

definition DOMAIN_KEYWORDS :: "(string \<times> string list) list" where
  "DOMAIN_KEYWORDS =
     [(''AI Models'', [''model'', ''llm'', ''gpt'', ''claude'', ''gemini'', ''stepflash'',
         ''deepseek'', ''mimo'', ''devstral'', ''openrouter'', ''free tier'', ''notion'']),
      (''OpenClaw'', [''openclaw'', ''agent'', ''workflow'', ''skill'', ''tool'',
         ''automation'', ''sync'', ''database'']),
      (''Cost Optimization'', [''cost'', ''price'', ''$'', ''budget'', ''free'', ''tier'',
         ''routing'', ''saving'', ''optimization'', ''value'']),
      (''Trading'', [''trading'', ''invest'', ''stock'', ''crypto'', ''nft'', ''web3'',
         ''defi'', ''bitcoin'', ''ethereum'']),
      (''Learning'', [''learn'', ''study'', ''japanese'', ''language'', ''course'',
         ''tutorial'', ''duolingo'']),
      (''Process'', [''process'', ''workflow'', ''method'', ''procedure'', ''system'',
         ''framework''])]"

definition CERTAINTY_PHRASES :: "(string \<times> string list) list" where
  "CERTAINTY_PHRASES =
     [(''Verified'', [''proven'', ''confirmed'', ''tested'', ''verified'', ''measured'',
         ''data shows'', ''benchmark result'']),
      (''Likely'', [''likely'', ''probably'', ''most likely'', ''seems'', ''appears'',
         ''suggest'']),
      (''Speculative'', [''maybe'', ''might'', ''could'', ''possibly'', ''hypothesis'',
         ''guess'', ''uncertain'']),
      (''Opinion'', [''i think'', ''believe'', ''feel'', ''in my view'', ''personally'',
         ''prefer''])]"

definition IMPACT_INDICATORS :: "(string \<times> string list) list" where
  "IMPACT_INDICATORS =
     [(''High'', [''critical'', ''important'', ''must'', ''essential'', ''key'', ''major'',
         ''significant'', ''game changer'']),
      (''Medium'', [''relevant'', ''useful'', ''helpful'', ''worth'', ''good'',
         ''beneficial'']),
      (''Low'', [''minor'', ''small'', ''slight'', ''marginal'', ''nice to have'']),
      (''Negligible'', [''negligible'', ''tiny'', ''minimal'', ''barely'',
         ''insignificant''])]"

definition any_in :: "string list \<Rightarrow> string \<Rightarrow> bool" where
  \<comment> \<open>\<open>any(kw in text for kw in keywords)\<close>\<close>
  "any_in keywords t = list_ex (\<lambda>kw. sublist kw t) keywords"

fun first_label :: "(string \<times> string list) list \<Rightarrow> string \<Rightarrow> string \<Rightarrow> string" where
  \<comment> \<open>the loop over a table: the first label with a keyword in the text, else the default\<close>
  "first_label [] t dflt = dflt"
| "first_label ((label, keywords) # rest) t dflt =
     (if any_in keywords t then label else first_label rest t dflt)"

definition classify_type :: "string \<Rightarrow> string \<Rightarrow> string" where
  "classify_type ti bo = first_label TYPE_KEYWORDS (lower (ti @ '' '' @ bo)) ''Insight''"

definition classify_domain :: "string \<Rightarrow> string \<Rightarrow> string" where
  "classify_domain ti bo = first_label DOMAIN_KEYWORDS (lower (ti @ '' '' @ bo)) ''General''"

definition classify_certainty :: "string \<Rightarrow> string" where
  "classify_certainty bo = first_label CERTAINTY_PHRASES (lower bo) ''Verified''"

definition classify_impact :: "string \<Rightarrow> string \<Rightarrow> string" where
  "classify_impact ti bo = first_label IMPACT_INDICATORS (lower (ti @ '' '' @ bo)) ''Medium''"

definition MAX_BODY_LENGTH :: nat where "MAX_BODY_LENGTH = 2000"
definition MAX_TITLE_LENGTH :: nat where "MAX_TITLE_LENGTH = 100"
definition MAX_TAGS :: nat where "MAX_TAGS = 7"

definition keyword_map :: "(string \<times> string list) list" where
  "keyword_map =
     [(''AI'', [''ai'', ''artificial intelligence'', ''ml'', ''machine learning'', ''model'']),
      (''OpenRouter'', [''openrouter'', ''router'', ''provider'', ''stepfun'', ''moonshot'',
         ''xiaomi'', ''mistral'']),
      (''FreeTier'', [''free'', ''free tier'', ''no cost'']),
      (''Benchmark'', [''benchmark'', ''test'', ''score'', ''performance'', ''swe-bench'',
         ''aime'']),
      (''Cost'', [''cost'', ''price'', ''$'', ''pricing'', ''budget'', ''optimization'']),
      (''Automation'', [''automation'', ''auto'', ''script'', ''workflow'', ''agent'',
         ''tool'']),
      (''Coding'', [''code'', ''programming'', ''development'', ''swe'', ''coding'']),
      (''Notion'', [''notion'', ''database'', ''knowledge base'', ''sync'']),
      (''Decision'', [''decision'', ''choose'', ''selected'', ''strategy''])]"

definition extract_tags ::
  "(string list \<Rightarrow> string list) \<Rightarrow> string \<Rightarrow> string \<Rightarrow> string \<Rightarrow> string list" where
  \<comment> \<open>\<open>list(set(tags))\<close> has the order in which the set iterates, which the program does
      not fix: \<open>set_order\<close> stands for it\<close>
  "extract_tags set_order ti bo sec =
     (let t = lower (ti @ '' '' @ bo @ '' '' @ sec);
          tags = map fst (filter (\<lambda>(tag, ws). any_in ws t) keyword_map)
      in take MAX_TAGS (set_order tags))"

definition estimate_confidence :: "string \<Rightarrow> string \<Rightarrow> string \<Rightarrow> int" where
  "estimate_confidence ti bo src =
     (let score = 7;
          score = (if src = ''MEMORY.md'' then score + 1 else score);
          score = (if length bo > 500 then score + 1 else score);
          score = (if any_in [''data'', ''benchmark'', ''measured'', ''tested''] (lower bo)
                   then score + 1 else score)
      in min 10 (max 1 score))"

record metadata =
  content_type :: string
  domain :: string
  certainty :: string
  impact :: string
  confidence_score :: int
  tags :: "string list"
  meta_source :: string

definition get_body :: "entry \<Rightarrow> string" where
  \<comment> \<open>\<open>entry.get('body', '')\<close>\<close>
  "get_body e = (case body e of None \<Rightarrow> [] | Some b \<Rightarrow> b)"

definition classify :: "(string list \<Rightarrow> string list) \<Rightarrow> entry \<Rightarrow> metadata" where
  \<comment> \<open>the dictionary \<open>meta\<close> that \<open>classify\<close> stores in the entry\<close>
  "classify set_order e =
     \<lparr>content_type = classify_type (title e) (get_body e),
      domain = classify_domain (title e) (get_body e),
      certainty = classify_certainty (get_body e),
      impact = classify_impact (title e) (get_body e),
      confidence_score = estimate_confidence (title e) (get_body e) (source e),
      tags = extract_tags set_order (title e) (get_body e) (section_name e),
      meta_source = source e\<rparr>"

definition no_keyword :: "(string \<times> string list) list \<Rightarrow> string \<Rightarrow> bool" where
  \<comment> \<open>no keyword of any label of the table occurs in the text\<close>
  "no_keyword table t = (\<not> list_ex (\<lambda>(label, keywords). any_in keywords t) table)"

section \<open>SyncOrchestrator\<close>

fun rfind_upto :: "string \<Rightarrow> string \<Rightarrow> nat \<Rightarrow> int" where
  \<comment> \<open>the highest index up to \<open>i\<close> at which \<open>sep\<close> starts in \<open>t\<close>, or -1\<close>
  "rfind_upto t sep 0 = (if take (length sep) t = sep then 0 else - 1)"
| "rfind_upto t sep (Suc i) =
     (if take (length sep) (drop (Suc i) t) = sep then int (Suc i) else rfind_upto t sep i)"

definition rfind :: "string \<Rightarrow> string \<Rightarrow> nat \<Rightarrow> int" where
  \<comment> \<open>\<open>t.rfind(sep, 0, e)\<close>: the highest index of an occurrence of \<open>sep\<close> that lies within
      \<open>t[0:e]\<close>, or -1\<close>
  "rfind t sep e =
     (let n = min e (length t) in
      if length sep \<le> n then rfind_upto t sep (n - length sep) else - 1)"

definition slice_to :: "string \<Rightarrow> int \<Rightarrow> string" where
  \<comment> \<open>\<open>t[:k]\<close>, where a negative \<open>k\<close> counts from the end\<close>
  "slice_to t k = (if 0 \<le> k then take (nat k) t else take (nat (int (length t) + k)) t)"

fun truncate_seps :: "string \<Rightarrow> nat \<Rightarrow> string list \<Rightarrow> string option" where
  \<comment> \<open>the loop over the separators of \<open>_truncate_text\<close>: the text it returns, or None when
      it ends without returning; \<open>idx > max_len * 0.5\<close> is \<open>2 * idx > max_len\<close>\<close>
  "truncate_seps t max_len [] = None"
| "truncate_seps t max_len (sep # seps) =
     (let idx = rfind t sep max_len in
      if 2 * idx > int max_len then Some (strip (slice_to t (idx + 1)))
      else truncate_seps t max_len seps)"

definition truncate_text :: "string \<Rightarrow> nat \<Rightarrow> string" where
  "truncate_text t max_len =
     (if length t \<le> max_len then t
      else (case truncate_seps t max_len
                  [[CHR 0x0A, CHR 0x0A], ''. '', ''! '', ''? '', ''; ''] of
              Some r \<Rightarrow> r
            | None \<Rightarrow> strip (slice_to t (int max_len - 3)) @ ''...''))"

text \<open>
  The dictionary \<open>properties\<close> of \<open>process_entry\<close>; the keys \<open>Tags\<close> and \<open>Body\<close> are
  present only under their conditions.
\<close>

record properties =
  p_Name :: string
  p_Content_Type :: string
  p_Domain :: string
  p_Certainty :: string
  p_Source :: string
  p_Confidence_Score :: int
  p_Impact :: string
  p_Source_File :: string
  p_Tags :: "string list option"
  p_Body :: "string option"

definition build_properties :: "metadata \<Rightarrow> entry \<Rightarrow> properties" where
  "build_properties meta e =
     \<lparr>p_Name = take MAX_TITLE_LENGTH (title e),
      p_Content_Type = content_type meta,
      p_Domain = domain meta,
      p_Certainty = certainty meta,
      p_Source = meta_source meta,
      p_Confidence_Score = confidence_score meta,
      p_Impact = impact meta,
      p_Source_File = file_name e,
      p_Tags = (if tags meta \<noteq> [] then Some (tags meta) else None),
      p_Body = (if get_body e \<noteq> [] \<and> length (get_body e) > 50
                then Some (truncate_text (get_body e) MAX_BODY_LENGTH) else None)\<rparr>"

definition block_text :: "block \<Rightarrow> string" where
  \<comment> \<open>the text content of a block\<close>
  "block_text b =
     (case b of Heading n t \<Rightarrow> t | Paragraph t \<Rightarrow> t | ListItem t \<Rightarrow> t | Quote t \<Rightarrow> t
      | Code t l \<Rightarrow> t | Divider \<Rightarrow> [])"

text \<open>
  The NotionClient sends requests to a remote service that is not part of the program.
  Its three methods are parameters: functions of the state \<open>'st\<close> of the remote store,
  returning what the method returns and, for a write, the new state.
\<close>

record 'st client =
  query_by_source_file :: "'st \<Rightarrow> string \<Rightarrow> string option"
  create_page :: "'st \<Rightarrow> properties \<Rightarrow> block list option \<Rightarrow> 'st \<times> string option"
  update_page :: "'st \<Rightarrow> string \<Rightarrow> properties \<Rightarrow> 'st \<times> bool"

definition truthy :: "string option \<Rightarrow> bool" where
  \<comment> \<open>\<open>if page_id:\<close> on an optional string\<close>
  "truthy x = (x \<noteq> None \<and> x \<noteq> Some [])"

datatype action = DRY_RUN | UPDATED | UPDATE_FAILED | CREATED | CREATE_FAILED

text \<open>
  \<open>process_entry\<close> returns the new state of the store, the lines it wrote to the sync
  log (action and details) and the page id it returns; it returns nothing (\<open>None\<close>)
  when the conversion of the body does not return.
\<close>

definition process_entry ::
  "'st client \<Rightarrow> (string list \<Rightarrow> string list) \<Rightarrow> 'st \<Rightarrow> entry \<Rightarrow> bool
   \<Rightarrow> ('st \<times> (action \<times> string) list \<times> string option) option" where
  "process_entry cl set_order st e dry_run =
     (let meta = classify set_order e;
          source_file = file_name e;
          existing_page_id = query_by_source_file cl st source_file;
          props = build_properties meta e;
          body_content = get_body e
      in case (if body_content \<noteq> [] \<and> length body_content > 50
               then map_option Some (convert body_content) else Some None) of
           None \<Rightarrow> None
         | Some children \<Rightarrow>
             if dry_run then
               Some (st,
                 [(DRY_RUN, ''Would '' @ (if truthy existing_page_id then ''update'' else ''create'')
                     @ '': '' @ title e)],
                 None)
             else if truthy existing_page_id then
               (case update_page cl st (the existing_page_id) props of
                  (st', success) \<Rightarrow>
                    if success then
                      Some (st',
                        [(UPDATED, title e @ '' (page: '' @ the existing_page_id @ '')'')],
                        existing_page_id)
                    else Some (st', [(UPDATE_FAILED, title e)], None))
             else
               (case create_page cl st props children of
                  (st', page_id) \<Rightarrow>
                    if truthy page_id then
                      Some (st', [(CREATED, title e @ '' (page: '' @ the page_id @ '')'')],
                        page_id)
                    else Some (st', [(CREATE_FAILED, title e)], page_id)))"

record stats =
  created :: nat
  updated :: nat
  failed :: nat

fun sync_loop ::
  "'st client \<Rightarrow> (string list \<Rightarrow> string list) \<Rightarrow> bool \<Rightarrow> entry list \<Rightarrow> 'st
   \<Rightarrow> (action \<times> string) list \<Rightarrow> stats \<Rightarrow> ('st \<times> (action \<times> string) list \<times> stats) option" where
  "sync_loop cl set_order dry_run [] st lg sts = Some (st, lg, sts)"
| "sync_loop cl set_order dry_run (e # es) st lg sts =
     (case process_entry cl set_order st e dry_run of
        None \<Rightarrow> None
      | Some (st', l, page_id) \<Rightarrow>
          sync_loop cl set_order dry_run es st' (lg @ l)
            (if truthy page_id then
               (if \<not> truthy (query_by_source_file cl st' (file_name e))
                then sts\<lparr>created := created sts + 1\<rparr>
                else sts\<lparr>updated := updated sts + 1\<rparr>)
             else sts\<lparr>failed := failed sts + 1\<rparr>))"

definition limit_entries :: "int option \<Rightarrow> entry list \<Rightarrow> entry list" where
  \<comment> \<open>\<open>if limit: entries = entries[:limit]\<close>\<close>
  "limit_entries limit es =
     (case limit of
        None \<Rightarrow> es
      | Some k \<Rightarrow>
          if k = 0 then es
          else if 0 < k then take (nat k) es
          else take (nat (int (length es) + k)) es)"

definition sync ::
  "'st client \<Rightarrow> (string list \<Rightarrow> string list) \<Rightarrow> (string \<Rightarrow> string)
   \<Rightarrow> (string \<Rightarrow> string option) \<Rightarrow> string list \<Rightarrow> bool \<Rightarrow> int option \<Rightarrow> 'st
   \<Rightarrow> (error + 'st \<times> (action \<times> string) list \<times> stats) option" where
  \<comment> \<open>the store after the run, the lines of the sync log and the tallies; \<open>Inl\<close> is an
      exception of the extraction, which \<open>sync\<close> does not catch\<close>
  "sync cl set_order md5 fs date_strs dry_run limit st =
     (case extract_all_entries md5 fs date_strs of
        Inl err \<Rightarrow> Some (Inl err)
      | Inr es \<Rightarrow>
          map_option Inr
            (sync_loop cl set_order dry_run (limit_entries limit es) st []
               \<lparr>created = 0, updated = 0, failed = 0\<rparr>))"

text \<open>
  What the statements below ask of the remote store, for the requests the program
  sends: a page created for a Source File is found by the lookup of that Source File;
  a lookup that finds a page still finds one after a page is created, and after the
  page found for a Source File is updated with properties of the same Source File; and
  the update of a page that the lookup found succeeds.
\<close>

definition found :: "'st client \<Rightarrow> 'st \<Rightarrow> string \<Rightarrow> bool" where
  "found cl st f = truthy (query_by_source_file cl st f)"

definition store_laws :: "'st client \<Rightarrow> bool" where
  "store_laws cl =
     ((\<forall>st p ch. truthy (snd (create_page cl st p ch)) \<longrightarrow>
          found cl (fst (create_page cl st p ch)) (p_Source_File p))
      \<and> (\<forall>st p ch f. found cl st f \<longrightarrow> found cl (fst (create_page cl st p ch)) f)
      \<and> (\<forall>st p f. found cl st (p_Source_File p) \<longrightarrow> found cl st f \<longrightarrow>
            found cl
              (fst (update_page cl st (the (query_by_source_file cl st (p_Source_File p))) p)) f)
      \<and> (\<forall>st p. found cl st (p_Source_File p) \<longrightarrow>
            snd (update_page cl st (the (query_by_source_file cl st (p_Source_File p))) p)))"

text \<open>
  A store for the examples: the pages are the list of their properties, the identifier
  of a page is made from its position, the lookup returns the first page whose Source
  File is the text asked for (the remote filter is a \<open>contains\<close> match; the two agree on
  file names none of which contains another), create appends a page and update replaces
  the properties of the page with the identifier.
\<close>

definition page_id_of :: "nat \<Rightarrow> string" where
  "page_id_of n = ''page-'' @ replicate n CHR ''i''"

definition page_store :: "properties list client" where
  "page_store =
     \<lparr>query_by_source_file =
        (\<lambda>st f. map_option page_id_of (find (\<lambda>n. p_Source_File (st ! n) = f) [0..<length st])),
      create_page = (\<lambda>st p ch. (st @ [p], Some (page_id_of (length st)))),
      update_page =
        (\<lambda>st i p. case find (\<lambda>n. page_id_of n = i) [0..<length st] of
                     None \<Rightarrow> (st, False)
                   | Some n \<Rightarrow> (st[n := p], True))\<rparr>"

section \<open>Properties of the block converter\<close>

declare parse_list_loop.simps [simp del] skip_list.simps [simp del]
  parse_code_loop.simps [simp del] table_loop.simps [simp del]

lemma convert_loop_end: "length lines \<le> i \<Longrightarrow> convert_loop lines i blocks = Some blocks"
  by (subst convert_loop.simps) simp

lemma convert_loop_blank:
  "i < length lines \<Longrightarrow> blank_line (lines ! i) \<Longrightarrow>
   convert_loop lines i blocks = convert_loop lines (Suc i) blocks"
  by (subst convert_loop.simps) (simp add: blank_line_def)

lemma convert_loop_step:
  "i < length lines \<Longrightarrow> \<not> blank_line (lines ! i) \<Longrightarrow> convert_step lines i = (j, new) \<Longrightarrow>
   convert_loop lines i blocks = convert_loop lines j (blocks @ new)"
  by (subst convert_loop.simps) (simp add: blank_line_def)

lemma convert_loop_stuck:
  assumes "i < length lines" "\<not> blank_line (lines ! i)" "convert_step lines i = (i, [])"
  shows "convert_loop lines i blocks = None"
proof (rule ccontr)
  assume "convert_loop lines i blocks \<noteq> None"
  then obtain y where y: "convert_loop lines i blocks = Some y" by auto
  have "\<not> (lines = lines \<and> i = i \<and> blocks = blocks)"
  proof (rule convert_loop.raw_induct
      [where P = "\<lambda>l j b r. \<not> (l = lines \<and> j = i \<and> b = blocks)", OF _ y])
    fix f l j b r
    assume ih: "\<And>l j b r. f l j b = Some r \<Longrightarrow> \<not> (l = lines \<and> j = i \<and> b = blocks)"
      and eq: "(if j < length l
                then if strip (rstrip (l ! j)) = [] then f l (j + 1) b
                     else f l (fst (convert_step l j)) (b @ snd (convert_step l j))
                else Some b) = Some r"
    show "\<not> (l = lines \<and> j = i \<and> b = blocks)"
    proof
      assume "l = lines \<and> j = i \<and> b = blocks"
      with eq assms have "f lines i blocks = Some r"
        by (simp add: blank_line_def)
      with ih show False by blast
    qed
  qed
  then show False by simp
qed

lemma skip_list_run:
  "skip_list lines i list_type = i + length (list_run list_type (drop i lines))"
proof (induction lines i list_type rule: skip_list.induct)
  case (1 lines i list_type)
  show ?case
  proof (cases "i < length lines")
    case False
    then show ?thesis by (subst skip_list.simps) (simp add: list_run_def)
  next
    case True
    then have d: "drop i lines = lines ! i # drop (Suc i) lines"
      by (simp add: Cons_nth_drop_Suc)
    show ?thesis
      using True 1
      by (subst skip_list.simps)
         (auto simp: d list_run_def blank_line_def list_line_def Let_def)
  qed
qed

lemma parse_list_loop_run:
  "parse_list_loop lines list_type i blocks =
   blocks @ map (\<lambda>l. create_list_item (item_text list_type l))
     (filter (\<lambda>l. \<not> blank_line l) (list_run list_type (drop i lines)))"
proof (induction lines list_type i blocks rule: parse_list_loop.induct)
  case (1 lines list_type i blocks)
  show ?case
  proof (cases "i < length lines")
    case False
    then show ?thesis by (subst parse_list_loop.simps) (simp add: list_run_def)
  next
    case True
    then have d: "drop i lines = lines ! i # drop (Suc i) lines"
      by (simp add: Cons_nth_drop_Suc)
    show ?thesis
      using True 1
      by (subst parse_list_loop.simps)
         (auto simp: d list_run_def blank_line_def list_line_def item_text_def Let_def)
  qed
qed


lemma rstrip_Nil_iff: "rstrip s = [] \<longleftrightarrow> (\<forall>c\<in>set s. isspace c)"
  by (simp add: rstrip_def dropWhile_eq_Nil_conv)

lemma lstrip_Nil_iff: "lstrip s = [] \<longleftrightarrow> (\<forall>c\<in>set s. isspace c)"
  by (simp add: lstrip_def dropWhile_eq_Nil_conv)

lemma strip_Nil_iff: "strip s = [] \<longleftrightarrow> (\<forall>c\<in>set s. isspace c)"
proof
  assume "strip s = []"
  then have "\<forall>c\<in>set (dropWhile isspace s). isspace c"
    by (simp add: strip_def rstrip_Nil_iff lstrip_def)
  then have "dropWhile isspace s = []"
    by (metis hd_dropWhile list.set_sel(1))
  then show "\<forall>c\<in>set s. isspace c"
    by (simp add: dropWhile_eq_Nil_conv)
next
  assume "\<forall>c\<in>set s. isspace c"
  then show "strip s = []"
    by (auto simp: strip_def lstrip_def rstrip_def dropWhile_eq_Nil_conv dest: set_dropWhileD)
qed

lemma star_not_space: "\<not> isspace CHR ''*''"
  by (simp add: isspace_def)

lemma star_line_not_blank:
  assumes "startswith l ''* ''"
  shows "strip l \<noteq> []"
proof -
  from assms have "CHR ''*'' \<in> set l"
    by (auto simp: startswith_def prefix_def)
  then show ?thesis
    using star_not_space by (auto simp: strip_Nil_iff)
qed

lemma star_line_cases:
  assumes "startswith l ''* ''"
  shows "\<not> startswith l ''# ''" "\<not> startswith l ''## ''" "\<not> startswith l ''### ''"
    "\<not> startswith l ''- ''"
  using assms by (auto simp: startswith_def prefix_def)

lemma list_run_star:
  assumes "i < length lines" "startswith (rstrip (lines ! i)) ''* ''"
  shows "list_run ''-'' (drop i lines) = []"
proof -
  have d: "drop i lines = lines ! i # drop (Suc i) lines"
    using assms(1) by (simp add: Cons_nth_drop_Suc)
  show ?thesis
    using star_line_not_blank [OF assms(2)] star_line_cases(4) [OF assms(2)]
    by (simp add: d list_run_def blank_line_def list_line_def)
qed

lemma convert_step_star:
  assumes "i < length lines" "startswith (rstrip (lines ! i)) ''* ''"
  shows "convert_step lines i = (i, [])"
  using star_line_cases [OF assms(2)] assms(2) list_run_star [OF assms]
  by (simp add: convert_step_def Let_def skip_list_run parse_list_def parse_list_loop_run)

lemma convert_loop_star:
  assumes "i < length lines" "startswith (rstrip (lines ! i)) ''* ''"
  shows "convert_loop lines i blocks = None"
  using assms star_line_not_blank [OF assms(2)]
  by (intro convert_loop_stuck convert_step_star) (simp_all add: blank_line_def)

lemma parse_code_loop_ge: "i \<le> snd (parse_code_loop lines i code_lines)"
proof (induction lines i code_lines rule: parse_code_loop.induct)
  case (1 lines i code_lines)
  show ?case
  proof (cases "i < length lines \<and> strip (lines ! i) \<noteq> ''```''")
    case True
    then have "Suc i \<le> snd (parse_code_loop lines (i + 1) (code_lines @ [rstrip (lines ! i)]))"
      using 1 by simp
    then show ?thesis
      using True by (subst parse_code_loop.simps) simp
  next
    case False
    then show ?thesis
      by (subst parse_code_loop.simps) auto
  qed
qed

lemma table_loop_ge: "j \<le> snd (table_loop lines j table_text)"
proof (induction lines j table_text rule: table_loop.induct)
  case (1 lines j table_text)
  show ?case
  proof (cases "j < length lines \<and> CHR ''|'' \<in> set (lines ! j)")
    case True
    then have "Suc j \<le> snd (table_loop lines (j + 1) (table_text @ [CHR 0x0A] @ lines ! j))"
      using 1 by simp
    then show ?thesis
      using True by (subst table_loop.simps) simp
  next
    case False
    then show ?thesis
      by (subst table_loop.simps) auto
  qed
qed

lemma list_run_first:
  assumes "i < length lines" "list_line list_type (lines ! i)"
  shows "0 < length (list_run list_type (drop i lines))"
proof -
  have d: "drop i lines = lines ! i # drop (Suc i) lines"
    using assms(1) by (simp add: Cons_nth_drop_Suc)
  show ?thesis using assms(2) by (simp add: d list_run_def)
qed

lemma advance_if:
  "(c \<Longrightarrow> i < fst a) \<Longrightarrow> (\<not> c \<Longrightarrow> i < fst b) \<Longrightarrow> i < fst (if c then a else b)"
  by simp

lemma convert_step_advance:
  assumes "i < length lines" "\<not> startswith (rstrip (lines ! i)) ''* ''"
  shows "i < fst (convert_step lines i)"
proof -
  have dash: "startswith (rstrip (lines ! i)) ''- '' \<Longrightarrow>
      0 < length (list_run ''-'' (drop i lines))"
    using assms(1) by (intro list_run_first) (simp_all add: list_line_def)
  have num: "match_numbered (rstrip (lines ! i)) \<noteq> None \<Longrightarrow>
      0 < length (list_run ''numbered'' (drop i lines))"
    using assms(1) by (intro list_run_first) (simp_all add: list_line_def)
  have code: "i < fst (case parse_code_block lines i of (c, n) \<Rightarrow> (n, f c))" for f
    using parse_code_loop_ge [of "i + 1" lines "[]"]
    by (auto simp: parse_code_block_def split: prod.splits)
  have tab: "i < fst (case table_loop lines (i + 1) t of (x, j) \<Rightarrow> (j, f x))" for t f
    using table_loop_ge [of "i + 1" lines t] by (auto split: prod.splits)
  show ?thesis
    unfolding convert_step_def Let_def
    apply (rule advance_if, simp)
    apply (rule advance_if, simp)
    apply (rule advance_if, simp)
    apply (rule advance_if, use assms(2) dash in \<open>simp add: skip_list_run\<close>)
    apply (rule advance_if, use num in \<open>simp add: skip_list_run\<close>)
    apply (rule advance_if, simp)
    apply (rule advance_if, rule code)
    apply (rule advance_if, simp)
    apply (rule advance_if, rule tab)
    apply simp
    done
qed

lemma convert_loop_total:
  assumes "\<And>j. i \<le> j \<Longrightarrow> j < length lines \<Longrightarrow> \<not> startswith (rstrip (lines ! j)) ''* ''"
  shows "\<exists>bs. convert_loop lines i blocks = Some bs"
  using assms
proof (induction "length lines - i" arbitrary: i blocks rule: less_induct)
  case less
  show ?case
  proof (cases "i < length lines")
    case False
    then show ?thesis by (simp add: convert_loop_end)
  next
    case True
    show ?thesis
    proof (cases "blank_line (lines ! i)")
      case True
      have "\<exists>bs. convert_loop lines (Suc i) blocks = Some bs"
        using \<open>i < length lines\<close> less.prems by (intro less.hyps) auto
      then show ?thesis
        using \<open>i < length lines\<close> True by (simp add: convert_loop_blank)
    next
      case False
      obtain j new where st: "convert_step lines i = (j, new)"
        by (cases "convert_step lines i")
      have adv: "i < j"
        using convert_step_advance [OF \<open>i < length lines\<close>] less.prems [of i] \<open>i < length lines\<close> st
        by simp
      have "\<exists>bs. convert_loop lines j (blocks @ new) = Some bs"
        using adv \<open>i < length lines\<close> less.prems by (intro less.hyps) auto
      then show ?thesis
        using convert_loop_step [OF \<open>i < length lines\<close> False st] by simp
    qed
  qed
qed

text \<open>
  C1.  The claim: for every input string \<open>convert\<close> terminates and returns a list of
  blocks, also on a line starting with \<open>* \<close>.  The code does not: on the one-line text
  \<open>* a\<close> the list branch is entered with list type \<open>-\<close>, the run loops match nothing and
  hand back the same index, and the scan never advances.  \<open>convert\<close> has no result there.
\<close>

theorem convert_star_line_diverges: "convert ''* a'' = None"
proof -
  have "split_nl ''* a'' = [''* a'']" by simp
  moreover have "startswith (rstrip ([''* a''] ! 0)) ''* ''" by code_simp
  ultimately show ?thesis
    by (simp add: convert_def convert_loop_star)
qed

text \<open>
  C2.  The claim: a line beginning with \<open>* \<close> yields a ListItem block for that line and
  conversion advances past the run.  The code does neither: at every such line the
  iteration of \<open>convert\<close> appends no block and leaves the index where it was.
\<close>

theorem star_line_emits_nothing:
  "i < length lines \<Longrightarrow> startswith (rstrip (lines ! i)) ''* '' \<Longrightarrow>
   parse_list lines i ''-'' = [] \<and> skip_list lines i ''-'' = i \<and>
   convert_step lines i = (i, [])"
  by (simp add: convert_step_star list_run_star skip_list_run parse_list_def
      parse_list_loop_run)

theorem star_line_emits_nothing_witness:
  "1 < length [''x'', ''* a''] \<and> startswith (rstrip ([''x'', ''* a''] ! 1)) ''* '' \<and>
   parse_list [''x'', ''* a''] 1 ''-'' = [] \<and> skip_list [''x'', ''* a''] 1 ''-'' = 1 \<and>
   convert_step [''x'', ''* a''] 1 = (1, [])"
proof -
  have a: "1 < length [''x'', ''* a'']" by simp
  have b: "startswith (rstrip ([''x'', ''* a''] ! 1)) ''* ''" by code_simp
  show ?thesis
    using star_line_emits_nothing [OF a b] b by simp
qed

text \<open>
  C3.  The claim: a blank line after a list line ends the run, and list lines after the
  blank line are not consumed as part of it.  The code skips blank lines inside the run:
  from \<open>- a\<close>, blank, \<open>- b\<close> both loops go on to the end and both items are in one run.
\<close>

theorem blank_line_does_not_end_run:
  "skip_list [''- a'', '''', ''- b''] 0 ''-'' = 3 \<and>
   parse_list [''- a'', '''', ''- b''] 0 ''-'' = [ListItem ''a'', ListItem ''b'']"
  by code_simp

text \<open>
  C3, as the code has it: the run that starts at index \<open>start\<close> is the longest stretch of
  lines from there that are blank or of the run's list type; \<open>_skip_list\<close> returns the
  index after it and \<open>_parse_list\<close> returns one ListItem per non-blank line of it, in
  order.
\<close>

theorem list_run_consumed:
  "skip_list lines start list_type = start + length (list_run list_type (drop start lines)) \<and>
   parse_list lines start list_type =
     map (\<lambda>l. create_list_item (item_text list_type l))
       (filter (\<lambda>l. \<not> blank_line l) (list_run list_type (drop start lines)))"
  by (simp add: skip_list_run parse_list_def parse_list_loop_run)

theorem list_run_consumed_witness:
  "skip_list [''1. a'', '' '', ''22. b'', ''- c''] 0 ''numbered'' = 3 \<and>
   parse_list [''1. a'', '' '', ''22. b'', ''- c''] 0 ''numbered'' = [ListItem ''a'', ListItem ''b'']"
proof -
  have r: "list_run ''numbered'' (drop 0 [''1. a'', '' '', ''22. b'', ''- c'']) =
      [''1. a'', '' '', ''22. b'']"
    by code_simp
  have f: "map (\<lambda>l. create_list_item (item_text ''numbered'' l))
       (filter (\<lambda>l. \<not> blank_line l) [''1. a'', '' '', ''22. b'']) = [ListItem ''a'', ListItem ''b'']"
    by code_simp
  show ?thesis
    using list_run_consumed [of "[''1. a'', '' '', ''22. b'', ''- c'']" 0 "''numbered''"]
    unfolding r f by simp
qed

text \<open>
  C4.  Converting the five-line text gives the heading, the two list items and the
  paragraph, in that order.
\<close>

theorem block_sequence_fidelity:
  "convert ''## H\<newline>- a\<newline>- b\<newline>\<newline>para'' =
   Some [Heading 2 ''H'', ListItem ''a'', ListItem ''b'', Paragraph ''para'']"
proof -
  let ?L = "[''## H'', ''- a'', ''- b'', [], ''para'']"
  have sp: "split_nl ''## H\<newline>- a\<newline>- b\<newline>\<newline>para'' = ?L" by simp
  have n0: "\<not> blank_line (?L ! 0)" and n1: "\<not> blank_line (?L ! 1)"
    and n4: "\<not> blank_line (?L ! 4)"
    by code_simp+
  have s0: "convert_step ?L 0 = (1, [Heading 2 ''H''])" by code_simp
  have s1: "convert_step ?L 1 = (4, [ListItem ''a'', ListItem ''b''])" by code_simp
  have s4: "convert_step ?L 4 = (5, [Paragraph ''para''])" by code_simp
  have "convert_loop ?L 0 [] = convert_loop ?L 1 [Heading 2 ''H'']"
    using convert_loop_step [OF _ n0 s0, of "[]"] by simp
  also have "\<dots> = convert_loop ?L 4 [Heading 2 ''H'', ListItem ''a'', ListItem ''b'']"
    using convert_loop_step [OF _ n1 s1, of "[Heading 2 ''H'']"] by simp
  also have "\<dots> = convert_loop ?L 5
      [Heading 2 ''H'', ListItem ''a'', ListItem ''b'', Paragraph ''para'']"
    using convert_loop_step [OF _ n4 s4, of "[Heading 2 ''H'', ListItem ''a'', ListItem ''b'']"]
    by simp
  also have "\<dots> = Some [Heading 2 ''H'', ListItem ''a'', ListItem ''b'', Paragraph ''para'']"
    by (simp add: convert_loop_end)
  finally show ?thesis by (simp add: convert_def sp)
qed

section \<open>Properties of the parser\<close>



lemma flush_fields [simp]:
  "current_section (flush s) = current_section s"
  "current_entry (flush s) = current_entry s"
  by (simp_all add: flush_def split: option.splits)










subsection \<open>A scan only adds entries, and changes of an entry only its body\<close>












subsection \<open>The section in force\<close>



subsection \<open>An entry with a line in its buffer is emitted\<close>










subsection \<open>Deduplication\<close>






subsection \<open>Headings and entries\<close>








text \<open>
  C7.  The claim: once a level-2 heading line has closed an entry no later line is added
  to its body, lines under an unrecognized section appear in no body, and no entry is
  emitted twice.  The code flushes the entry at the level-2 heading but keeps it as the
  current entry: the line under the unrecognized section goes to the buffer, and the
  flush at the end of input overwrites the body of the entry and appends it once more.
\<close>

theorem closed_entry_overwritten_and_emitted_twice:
  "parse_memory_file
     (map_of [(''MEMORY.md'', ''## Lesson\<newline>### A\<newline>body\<newline>## Other\<newline>junk'')]) =
   [\<lparr>title = ''A'', source = ''MEMORY.md'', section_name = ''Lesson'',
      file_name = ''MEMORY.md'', date = None, body = Some ''junk''\<rparr>,
    \<lparr>title = ''A'', source = ''MEMORY.md'', section_name = ''Lesson'',
      file_name = ''MEMORY.md'', date = None, body = Some ''junk''\<rparr>]"
  by code_simp

section \<open>Properties of the classifier\<close>

lemma first_label_default: "no_keyword table t \<Longrightarrow> first_label table t dflt = dflt"
  by (induction table t dflt rule: first_label.induct) (simp_all add: no_keyword_def)

lemma lower_append: "lower (a @ b) = lower a @ lower b"
  by (simp add: lower_def)

lemma any_in_body:
  "any_in ws (lower bo) \<Longrightarrow> any_in ws (lower (ti @ '' '' @ bo))"
proof -
  assume "any_in ws (lower bo)"
  then obtain w where w: "w \<in> set ws" "sublist w (lower bo)"
    by (auto simp: any_in_def list_ex_iff)
  have "lower (ti @ '' '' @ bo) = lower (ti @ '' '') @ lower bo"
    by (simp add: lower_def)
  then have "sublist w (lower (ti @ '' '' @ bo))"
    using w(2) by (simp add: sublist_append)
  with w(1) show ?thesis
    by (auto simp: any_in_def list_ex_iff)
qed

lemma no_type_no_benchmark:
  "no_keyword TYPE_KEYWORDS t \<Longrightarrow> \<not> sublist ''benchmark'' t"
  by (simp add: no_keyword_def TYPE_KEYWORDS_def any_in_def)

lemma no_certainty_no_measured:
  "no_keyword CERTAINTY_PHRASES t \<Longrightarrow> \<not> sublist ''measured'' t \<and> \<not> sublist ''tested'' t"
  by (simp add: no_keyword_def CERTAINTY_PHRASES_def any_in_def)

lemma evidence_is_data:
  assumes "no_keyword TYPE_KEYWORDS (lower (ti @ '' '' @ bo))"
    and "no_keyword CERTAINTY_PHRASES (lower bo)"
  shows "any_in [''data'', ''benchmark'', ''measured'', ''tested''] (lower bo)
         = sublist ''data'' (lower bo)"
proof -
  have "\<not> sublist ''benchmark'' (lower bo)"
    using no_type_no_benchmark [OF assms(1)] any_in_body [of "[''benchmark'']" bo ti]
    by (auto simp: any_in_def)
  then show ?thesis
    using no_certainty_no_measured [OF assms(2)] by (simp add: any_in_def)
qed

lemma no_keyword_xs:
  assumes "set t \<subseteq> {CHR '' '', CHR ''x''}"
    and "\<forall>(label, keywords)\<in>set table. \<forall>kw\<in>set keywords.
             \<not> set kw \<subseteq> {CHR '' '', CHR ''x''}"
  shows "no_keyword table (lower t)"
proof -
  have "lower_char c = c" if "c \<in> {CHR '' '', CHR ''x''}" for c
    using that by (auto simp: lower_char_def)
  then have lx: "lower t = t"
    using assms(1) by (auto simp: lower_def intro: map_idI)
  have "\<not> sublist kw t" if "\<not> set kw \<subseteq> {CHR '' '', CHR ''x''}" for kw
    using that set_mono_sublist [of kw t] assms(1) by blast
  with assms(2) show ?thesis
    unfolding lx by (fastforce simp: no_keyword_def any_in_def list_ex_iff)
qed

lemma tables_not_xs:
  "\<forall>(label, keywords)\<in>set TYPE_KEYWORDS. \<forall>kw\<in>set keywords.
     \<not> set kw \<subseteq> {CHR '' '', CHR ''x''}"
  "\<forall>(label, keywords)\<in>set DOMAIN_KEYWORDS. \<forall>kw\<in>set keywords.
     \<not> set kw \<subseteq> {CHR '' '', CHR ''x''}"
  "\<forall>(label, keywords)\<in>set CERTAINTY_PHRASES. \<forall>kw\<in>set keywords.
     \<not> set kw \<subseteq> {CHR '' '', CHR ''x''}"
  "\<forall>(label, keywords)\<in>set IMPACT_INDICATORS. \<forall>kw\<in>set keywords.
     \<not> set kw \<subseteq> {CHR '' '', CHR ''x''}"
  by (simp_all add: TYPE_KEYWORDS_def DOMAIN_KEYWORDS_def CERTAINTY_PHRASES_def
      IMPACT_INDICATORS_def)

text \<open>
  C8.  The claim: an entry with no keyword of any taxonomy gets confidence score 7, or 8
  when it comes from MEMORY.md.  The score also grows with the length of the body: a
  daily entry whose body is 501 letters \<open>x\<close> matches no keyword and scores 8.
\<close>

theorem long_body_raises_confidence:
  "no_keyword TYPE_KEYWORDS (lower ([] @ '' '' @ replicate 501 CHR ''x''))
   \<and> no_keyword DOMAIN_KEYWORDS (lower ([] @ '' '' @ replicate 501 CHR ''x''))
   \<and> no_keyword CERTAINTY_PHRASES (lower (replicate 501 CHR ''x''))
   \<and> no_keyword IMPACT_INDICATORS (lower ([] @ '' '' @ replicate 501 CHR ''x''))
   \<and> confidence_score (classify (\<lambda>ts. ts)
        \<lparr>title = [], source = ''daily'', section_name = ''Lesson'',
         file_name = ''2024-01-02.md'', date = Some ''2024-01-02'',
         body = Some (replicate 501 CHR ''x'')\<rparr>) = 8"
proof -
  have a: "set ([] @ '' '' @ replicate 501 CHR ''x'') \<subseteq> {CHR '' '', CHR ''x''}"
    and b: "set (replicate 501 CHR ''x'') \<subseteq> {CHR '' '', CHR ''x''}"
    by simp_all
  have nd: "\<not> any_in [''data'', ''benchmark'', ''measured'', ''tested'']
      (lower (replicate 501 CHR ''x''))"
  proof -
    have "no_keyword [(''evidence'', [''data'', ''benchmark'', ''measured'', ''tested''])]
        (lower (replicate 501 CHR ''x''))"
      by (rule no_keyword_xs [OF b]) simp
    then show ?thesis by (simp add: no_keyword_def)
  qed
  have "confidence_score (classify (\<lambda>ts. ts)
        \<lparr>title = [], source = ''daily'', section_name = ''Lesson'',
         file_name = ''2024-01-02.md'', date = Some ''2024-01-02'',
         body = Some (replicate 501 CHR ''x'')\<rparr>) = 8"
    using nd by (simp add: classify_def get_body_def estimate_confidence_def)
  then show ?thesis
    using no_keyword_xs [OF a tables_not_xs(1)] no_keyword_xs [OF a tables_not_xs(2)]
      no_keyword_xs [OF b tables_not_xs(3)] no_keyword_xs [OF a tables_not_xs(4)]
    by blast
qed

text \<open>
  C8, as the code has it: an entry with no keyword of the four tables in the lowercased
  text (title, a space, body; for the certainty the body alone) is classified Insight,
  General, Verified, Medium, and its confidence score is 7, plus 1 if its source is
  MEMORY.md, plus 1 if the body has more than 500 characters, plus 1 if the lowercased
  body contains \<open>data\<close> (the one evidence word that is in none of the tables).
\<close>

theorem classification_defaults:
  assumes "no_keyword TYPE_KEYWORDS (lower (title e @ '' '' @ get_body e))"
    and "no_keyword DOMAIN_KEYWORDS (lower (title e @ '' '' @ get_body e))"
    and "no_keyword CERTAINTY_PHRASES (lower (get_body e))"
    and "no_keyword IMPACT_INDICATORS (lower (title e @ '' '' @ get_body e))"
  shows "content_type (classify set_order e) = ''Insight''
       \<and> domain (classify set_order e) = ''General''
       \<and> certainty (classify set_order e) = ''Verified''
       \<and> impact (classify set_order e) = ''Medium''
       \<and> confidence_score (classify set_order e) =
           7 + (if source e = ''MEMORY.md'' then 1 else 0)
             + (if length (get_body e) > 500 then 1 else 0)
             + (if sublist ''data'' (lower (get_body e)) then 1 else 0)"
proof -
  have ev: "any_in [''data'', ''benchmark'', ''measured'', ''tested''] (lower (get_body e))
      = sublist ''data'' (lower (get_body e))"
    by (rule evidence_is_data [OF assms(1,3)])
  have "confidence_score (classify set_order e) =
           7 + (if source e = ''MEMORY.md'' then 1 else 0)
             + (if length (get_body e) > 500 then 1 else 0)
             + (if sublist ''data'' (lower (get_body e)) then 1 else 0)"
    by (simp add: classify_def estimate_confidence_def ev)
  then show ?thesis
    using assms
    by (simp add: classify_def classify_type_def classify_domain_def classify_certainty_def
        classify_impact_def first_label_default)
qed

theorem classification_defaults_witness:
  "no_keyword TYPE_KEYWORDS (lower (''Q'' @ '' '' @ ''zzz''))
   \<and> no_keyword DOMAIN_KEYWORDS (lower (''Q'' @ '' '' @ ''zzz''))
   \<and> no_keyword CERTAINTY_PHRASES (lower ''zzz'')
   \<and> no_keyword IMPACT_INDICATORS (lower (''Q'' @ '' '' @ ''zzz''))
   \<and> content_type (classify (\<lambda>ts. ts)
        \<lparr>title = ''Q'', source = ''MEMORY.md'', section_name = ''Lesson'',
         file_name = ''MEMORY.md'', date = None, body = Some ''zzz''\<rparr>) = ''Insight''
   \<and> domain (classify (\<lambda>ts. ts)
        \<lparr>title = ''Q'', source = ''MEMORY.md'', section_name = ''Lesson'',
         file_name = ''MEMORY.md'', date = None, body = Some ''zzz''\<rparr>) = ''General''
   \<and> certainty (classify (\<lambda>ts. ts)
        \<lparr>title = ''Q'', source = ''MEMORY.md'', section_name = ''Lesson'',
         file_name = ''MEMORY.md'', date = None, body = Some ''zzz''\<rparr>) = ''Verified''
   \<and> impact (classify (\<lambda>ts. ts)
        \<lparr>title = ''Q'', source = ''MEMORY.md'', section_name = ''Lesson'',
         file_name = ''MEMORY.md'', date = None, body = Some ''zzz''\<rparr>) = ''Medium''
   \<and> confidence_score (classify (\<lambda>ts. ts)
        \<lparr>title = ''Q'', source = ''MEMORY.md'', section_name = ''Lesson'',
         file_name = ''MEMORY.md'', date = None, body = Some ''zzz''\<rparr>) = 8"
proof -
  let ?e = "\<lparr>title = ''Q'', source = ''MEMORY.md'', section_name = ''Lesson'',
         file_name = ''MEMORY.md'', date = None, body = Some ''zzz''\<rparr>"
  have g: "get_body ?e = ''zzz''" "title ?e = ''Q''" "source ?e = ''MEMORY.md''"
    by (simp_all add: get_body_def)
  have h1: "no_keyword TYPE_KEYWORDS (lower (''Q'' @ '' '' @ ''zzz''))" by code_simp
  have h2: "no_keyword DOMAIN_KEYWORDS (lower (''Q'' @ '' '' @ ''zzz''))" by code_simp
  have h3: "no_keyword CERTAINTY_PHRASES (lower ''zzz'')" by code_simp
  have h4: "no_keyword IMPACT_INDICATORS (lower (''Q'' @ '' '' @ ''zzz''))" by code_simp
  have d: "\<not> sublist ''data'' (lower ''zzz'')" by code_simp
  from classification_defaults [of ?e "\<lambda>ts. ts"] h1 h2 h3 h4
  have "content_type (classify (\<lambda>ts. ts) ?e) = ''Insight''
       \<and> domain (classify (\<lambda>ts. ts) ?e) = ''General''
       \<and> certainty (classify (\<lambda>ts. ts) ?e) = ''Verified''
       \<and> impact (classify (\<lambda>ts. ts) ?e) = ''Medium''
       \<and> confidence_score (classify (\<lambda>ts. ts) ?e) =
           7 + (if source ?e = ''MEMORY.md'' then 1 else 0)
             + (if length (get_body ?e) > 500 then 1 else 0)
             + (if sublist ''data'' (lower (get_body ?e)) then 1 else 0)"
    unfolding g by blast
  then show ?thesis
    using h1 h2 h3 h4 d unfolding g by simp
qed

section \<open>Properties of the truncation\<close>

lemma length_rstrip: "length (rstrip s) \<le> length s"
  using length_dropWhile_le [of isspace "rev s"] by (simp add: rstrip_def)

lemma length_strip: "length (strip s) \<le> length s"
  using length_rstrip [of "lstrip s"] length_dropWhile_le [of isspace s]
  by (simp add: strip_def lstrip_def)

lemma rfind_upto_le: "rfind_upto t sep i \<le> int i"
  by (induction i) auto

lemma rfind_le: "sep \<noteq> [] \<Longrightarrow> rfind t sep e < int e"
proof -
  assume ne: "sep \<noteq> []"
  then have pos: "0 < length sep" by simp
  show ?thesis
  proof (cases "length sep \<le> min e (length t)")
    case True
    have "rfind t sep e = rfind_upto t sep (min e (length t) - length sep)"
      using True by (simp only: rfind_def Let_def if_True)
    also have "\<dots> \<le> int (min e (length t) - length sep)"
      by (rule rfind_upto_le)
    also have "\<dots> < int e"
      using True pos by linarith
    finally show ?thesis .
  next
    case False
    then have "rfind t sep e = - 1"
      by (simp only: rfind_def Let_def if_False)
    then show ?thesis by simp
  qed
qed

lemma truncate_seps_cut:
  assumes "truncate_seps t max_len seps = Some r" "\<forall>sep\<in>set seps. sep \<noteq> []"
  shows "\<exists>n. max_len < 2 * n - 2 \<and> n \<le> max_len \<and> r = strip (take n t)"
  using assms
proof (induction seps)
  case Nil
  then show ?case by simp
next
  case (Cons sep seps)
  let ?idx = "rfind t sep max_len"
  show ?case
  proof (cases "2 * ?idx > int max_len")
    case True
    have lt: "?idx < int max_len"
      using Cons.prems(2) by (simp add: rfind_le)
    have r: "r = strip (take (nat (?idx + 1)) t)"
      using Cons.prems(1) True by (simp add: slice_to_def)
    show ?thesis
      using True lt r by (intro exI [of _ "nat (?idx + 1)"]) auto
  next
    case False
    then show ?thesis
      using Cons by simp
  qed
qed

lemma truncate_text_cases:
  "truncate_text t max_len = t \<and> length t \<le> max_len
   \<or> (\<exists>n. max_len < 2 * n - 2 \<and> n \<le> max_len \<and> truncate_text t max_len = strip (take n t))
   \<or> truncate_text t max_len = strip (slice_to t (int max_len - 3)) @ ''...''"
proof (cases "length t \<le> max_len")
  case True
  then show ?thesis by (simp add: truncate_text_def)
next
  case False
  show ?thesis
  proof (cases "truncate_seps t max_len [[CHR 0x0A, CHR 0x0A], ''. '', ''! '', ''? '', ''; '']")
    case None
    then show ?thesis using False by (simp add: truncate_text_def)
  next
    case (Some r)
    from truncate_seps_cut [OF Some] obtain n where
      "max_len < 2 * n - 2" "n \<le> max_len" "r = strip (take n t)"
      by auto
    then show ?thesis
      using False Some by (auto simp: truncate_text_def)
  qed
qed

lemma length_truncate_text:
  assumes "3 \<le> max_len"
  shows "length (truncate_text t max_len) \<le> max_len"
proof -
  have sl: "slice_to t (int max_len - 3) = take (max_len - 3) t"
  proof -
    have "slice_to t (int (max_len - 3)) = take (max_len - 3) t"
      by (simp add: slice_to_def)
    moreover have "int (max_len - 3) = int max_len - 3"
      using assms by linarith
    ultimately show ?thesis by (simp only:)
  qed
  have hard: "length (strip (slice_to t (int max_len - 3)) @ ''...'') \<le> max_len"
  proof -
    have "length (strip (take (max_len - 3) t)) \<le> max_len - 3"
      using length_strip [of "take (max_len - 3) t"] by simp
    then show ?thesis
      unfolding sl using assms by simp
  qed
  from truncate_text_cases [of t max_len]
  consider (same) "truncate_text t max_len = t" "length t \<le> max_len"
    | (cut) n where "n \<le> max_len" "truncate_text t max_len = strip (take n t)"
    | (hard) "truncate_text t max_len = strip (slice_to t (int max_len - 3)) @ ''...''"
    by blast
  then show ?thesis
  proof cases
    case same
    then show ?thesis by simp
  next
    case cut
    have "length (strip (take n t)) \<le> n"
      using length_strip [of "take n t"] by simp
    then show ?thesis
      using cut by simp
  next
    case hard
    then show ?thesis
      using \<open>length (strip (slice_to t (int max_len - 3)) @ ''...'') \<le> max_len\<close> by simp
  qed
qed

section \<open>Block texts\<close>

lemma create_texts:
  "length (block_text (create_heading n t)) \<le> 2000"
  "length (block_text (create_paragraph t)) \<le> 2000"
  "length (block_text (create_list_item t)) \<le> 2000"
  "length (block_text (create_quote t)) \<le> 2000"
  "length (block_text (create_code t l)) \<le> 2000"
  "length (block_text create_divider) \<le> 2000"
  by (simp_all add: block_text_def create_heading_def create_paragraph_def
      create_list_item_def create_quote_def create_code_def create_divider_def)

lemma parse_list_texts: "b \<in> set (parse_list lines i lt) \<Longrightarrow> length (block_text b) \<le> 2000"
  by (auto simp: parse_list_def parse_list_loop_run create_texts)

lemma texts_if:
  "(c \<Longrightarrow> \<forall>b\<in>set (snd x). length (block_text b) \<le> 2000) \<Longrightarrow>
   (\<not> c \<Longrightarrow> \<forall>b\<in>set (snd y). length (block_text b) \<le> 2000) \<Longrightarrow>
   \<forall>b\<in>set (snd (if c then x else y)). length (block_text b) \<le> 2000"
  by simp

lemma convert_step_texts:
  "\<forall>b\<in>set (snd (convert_step lines i)). length (block_text b) \<le> 2000"
  unfolding convert_step_def Let_def
  apply (rule texts_if, simp add: create_texts)
  apply (rule texts_if, simp add: create_texts)
  apply (rule texts_if, simp add: create_texts)
  apply (rule texts_if, simp add: parse_list_texts)
  apply (rule texts_if, simp add: parse_list_texts)
  apply (rule texts_if, simp add: create_texts)
  apply (rule texts_if, simp add: create_texts split: prod.splits)
  apply (rule texts_if, simp add: create_texts)
  apply (rule texts_if, simp add: create_texts split: prod.splits)
  apply (simp add: create_texts)
  done

lemma convert_loop_texts:
  assumes "convert_loop lines i blocks = Some bs"
    and "\<forall>b\<in>set blocks. length (block_text b) \<le> 2000"
  shows "\<forall>b\<in>set bs. length (block_text b) \<le> 2000"
proof -
  have "(\<forall>b\<in>set blocks. length (block_text b) \<le> 2000) \<longrightarrow>
        (\<forall>b\<in>set bs. length (block_text b) \<le> 2000)"
  proof (rule convert_loop.raw_induct
      [where P = "\<lambda>l j acc res. (\<forall>b\<in>set acc. length (block_text b) \<le> 2000) \<longrightarrow>
        (\<forall>b\<in>set res. length (block_text b) \<le> 2000)", OF _ assms(1)])
    fix f l j acc res
    assume ih: "\<And>l j acc res. f l j acc = Some res \<Longrightarrow>
        (\<forall>b\<in>set acc. length (block_text b) \<le> 2000) \<longrightarrow>
        (\<forall>b\<in>set res. length (block_text b) \<le> 2000)"
      and eq: "(if j < length l
                then if strip (rstrip (l ! j)) = [] then f l (j + 1) acc
                     else f l (fst (convert_step l j)) (acc @ snd (convert_step l j))
                else Some acc) = Some res"
    show "(\<forall>b\<in>set acc. length (block_text b) \<le> 2000) \<longrightarrow>
        (\<forall>b\<in>set res. length (block_text b) \<le> 2000)"
    proof
      assume acc: "\<forall>b\<in>set acc. length (block_text b) \<le> 2000"
      then have acc': "\<forall>b\<in>set (acc @ snd (convert_step l j)). length (block_text b) \<le> 2000"
        using convert_step_texts [of l j] by auto
      from eq show "\<forall>b\<in>set res. length (block_text b) \<le> 2000"
        using ih acc acc' by (auto split: if_splits)
    qed
  qed
  with assms(2) show ?thesis by blast
qed

lemma strip_head:
  assumes "\<not> isspace c" "\<forall>x\<in>set ws. isspace x"
  shows "strip (c # ws) = [c]"
proof -
  have "lstrip (c # ws) = c # ws"
    using assms(1) by (simp add: lstrip_def)
  moreover have "dropWhile isspace (rev ws @ [c]) = [c]"
    using assms by (subst dropWhile_append2) auto
  ultimately show ?thesis
    by (simp add: strip_def rstrip_def)
qed

lemma rfind_upto_hit:
  "take (length sep) (drop i t) = sep \<Longrightarrow> rfind_upto t sep i = int i"
  by (cases i) simp_all

text \<open>
  C9.  The claim: every emitted text field keeps to its maximum length, and the
  sentence-aware truncation never cuts the text below 50% of the maximum unless the
  text has no sentence boundary.  The source says the same in the comment on the test
  of the cut index (a sentence cut is used only if at least 50% is kept), and then
  strips the prefix it has cut: the body \<open>x\<close>, 1997 spaces, an empty line, \<open>yyy\<close> has
  2003 characters and a boundary at index 1998, and is truncated to the one character
  \<open>x\<close>.
\<close>

theorem truncation_trims_below_half:
  "sublist [CHR 0x0A, CHR 0x0A]
     (CHR ''x'' # replicate 1997 CHR '' '' @ [CHR 0x0A, CHR 0x0A] @ ''yyy'')
   \<and> length (CHR ''x'' # replicate 1997 CHR '' '' @ [CHR 0x0A, CHR 0x0A] @ ''yyy'') = 2003
   \<and> truncate_text (CHR ''x'' # replicate 1997 CHR '' '' @ [CHR 0x0A, CHR 0x0A] @ ''yyy'')
        MAX_BODY_LENGTH = ''x''"
proof -
  let ?T = "CHR ''x'' # replicate 1997 CHR '' '' @ [CHR 0x0A, CHR 0x0A] @ ''yyy''"
  have len: "length ?T = 2003" by simp
  have sub: "sublist [CHR 0x0A, CHR 0x0A] ?T"
    using sublist_appendI [of "[CHR 0x0A, CHR 0x0A]" "CHR ''x'' # replicate 1997 CHR '' ''" "''yyy''"]
    by simp
  have dr: "drop 1998 ?T = [CHR 0x0A, CHR 0x0A] @ ''yyy''"
    by (simp add: drop_Cons')
  have hit: "rfind_upto ?T [CHR 0x0A, CHR 0x0A] 1998 = 1998"
    using rfind_upto_hit [of "[CHR 0x0A, CHR 0x0A]" 1998 ?T] unfolding dr by simp
  have rf: "rfind ?T [CHR 0x0A, CHR 0x0A] 2000 = 1998"
    unfolding rfind_def Let_def len using hit by simp
  have tk: "take 1999 ?T = CHR ''x'' # (replicate 1997 CHR '' '' @ [CHR 0x0A])"
    by (simp add: take_Cons')
  have sp: "\<forall>x\<in>set (replicate 1997 CHR '' '' @ [CHR 0x0A]). isspace x"
    by (auto simp: isspace_def)
  have st: "strip (take 1999 ?T) = ''x''"
    unfolding tk by (rule strip_head [OF _ sp]) (simp add: isspace_def)
  have "truncate_seps ?T 2000 [[CHR 0x0A, CHR 0x0A], ''. '', ''! '', ''? '', ''; ''] = Some ''x''"
    using st by (simp only: truncate_seps.simps rf Let_def slice_to_def) simp
  then have "truncate_text ?T 2000 = ''x''"
    unfolding truncate_text_def len by simp
  then show ?thesis
    using len sub by (simp only: MAX_BODY_LENGTH_def)
qed

text \<open>
  The length bounds hold on the code: the title property has at most 100 characters,
  the body property and the text of every block at most 2000.  A text of at most 2000
  characters is returned as it is; a longer one comes back as a prefix of it trimmed of
  whitespace, cut at some \<open>n\<close> with \<open>1001 < n \<le> 2000\<close>, or cut at 1997 with \<open>...\<close>
  appended.  This bounds the cut point only; which cut is taken is the loop of
  \<open>truncate_seps\<close> over \<open>rfind\<close>.
\<close>

theorem emitted_text_bounds:
  "length (p_Name (build_properties meta e)) \<le> 100
   \<and> (\<forall>b\<in>set_option (p_Body (build_properties meta e)). length b \<le> 2000)
   \<and> (\<forall>bs. convert t = Some bs \<longrightarrow> (\<forall>b\<in>set bs. length (block_text b) \<le> 2000))
   \<and> length (truncate_text btext MAX_BODY_LENGTH) \<le> 2000
   \<and> (length btext \<le> 2000 \<longrightarrow> truncate_text btext MAX_BODY_LENGTH = btext)
   \<and> (2000 < length btext \<longrightarrow>
        (\<exists>n. 1001 < n \<and> n \<le> 2000 \<and> truncate_text btext MAX_BODY_LENGTH = strip (take n btext))
        \<or> truncate_text btext MAX_BODY_LENGTH = strip (take 1997 btext) @ ''...'')"
proof (intro conjI allI impI)
  show "length (p_Name (build_properties meta e)) \<le> 100"
    by (simp add: build_properties_def MAX_TITLE_LENGTH_def)
next
  have "length (truncate_text (get_body e) MAX_BODY_LENGTH) \<le> 2000"
    using length_truncate_text [of MAX_BODY_LENGTH "get_body e"]
    by (simp add: MAX_BODY_LENGTH_def)
  then show "\<forall>b\<in>set_option (p_Body (build_properties meta e)). length b \<le> 2000"
    by (simp add: build_properties_def)
next
  fix bs
  assume "convert t = Some bs"
  then show "\<forall>b\<in>set bs. length (block_text b) \<le> 2000"
    unfolding convert_def by (rule convert_loop_texts) simp
next
  show "length (truncate_text btext MAX_BODY_LENGTH) \<le> 2000"
    using length_truncate_text [of MAX_BODY_LENGTH btext] by (simp add: MAX_BODY_LENGTH_def)
next
  assume "length btext \<le> 2000"
  then show "truncate_text btext MAX_BODY_LENGTH = btext"
    by (simp add: truncate_text_def MAX_BODY_LENGTH_def)
next
  assume long: "2000 < length btext"
  have sl: "slice_to btext (int 2000 - 3) = take 1997 btext"
    by (simp add: slice_to_def)
  from truncate_text_cases [of btext 2000]
  consider (same) "length btext \<le> 2000"
    | (cut) n where "2000 < 2 * n - 2" "n \<le> 2000" "truncate_text btext 2000 = strip (take n btext)"
    | (hard) "truncate_text btext 2000 = strip (slice_to btext (int 2000 - 3)) @ ''...''"
    by blast
  then show "(\<exists>n. 1001 < n \<and> n \<le> 2000 \<and> truncate_text btext MAX_BODY_LENGTH = strip (take n btext))
        \<or> truncate_text btext MAX_BODY_LENGTH = strip (take 1997 btext) @ ''...''"
  proof cases
    case same
    with long show ?thesis by simp
  next
    case cut
    then have "1001 < n" by linarith
    with cut show ?thesis
      unfolding MAX_BODY_LENGTH_def by blast
  next
    case hard
    then show ?thesis
      unfolding MAX_BODY_LENGTH_def sl by blast
  qed
qed

theorem emitted_text_bounds_witness:
  "length (p_Name (build_properties
       (classify (\<lambda>ts. ts)
         \<lparr>title = ''Q'', source = ''MEMORY.md'', section_name = ''Lesson'',
          file_name = ''MEMORY.md'', date = None, body = Some ''zzz''\<rparr>)
       \<lparr>title = ''Q'', source = ''MEMORY.md'', section_name = ''Lesson'',
          file_name = ''MEMORY.md'', date = None, body = Some ''zzz''\<rparr>)) \<le> 100
   \<and> convert ''hi'' = Some [Paragraph ''hi'']
   \<and> length (block_text (Paragraph ''hi'')) \<le> 2000
   \<and> 2000 < length (replicate 2001 CHR ''a'')
   \<and> ((\<exists>n. 1001 < n \<and> n \<le> 2000 \<and>
          truncate_text (replicate 2001 CHR ''a'') MAX_BODY_LENGTH
            = strip (take n (replicate 2001 CHR ''a'')))
        \<or> truncate_text (replicate 2001 CHR ''a'') MAX_BODY_LENGTH
            = strip (take 1997 (replicate 2001 CHR ''a'')) @ ''...'')
   \<and> length (truncate_text (replicate 2001 CHR ''a'') MAX_BODY_LENGTH) \<le> 2000"
proof -
  have n0: "\<not> blank_line ([''hi''] ! 0)" by code_simp
  have s0: "convert_step [''hi''] 0 = (1, [Paragraph ''hi''])" by code_simp
  have "convert_loop [''hi''] 0 [] = convert_loop [''hi''] 1 [Paragraph ''hi'']"
    using convert_loop_step [OF _ n0 s0, of "[]"] by simp
  then have c: "convert ''hi'' = Some [Paragraph ''hi'']"
    by (simp add: convert_def convert_loop_end)
  have l: "2000 < length (replicate 2001 CHR ''a'')" by simp
  let ?e = "\<lparr>title = ''Q'', source = ''MEMORY.md'', section_name = ''Lesson'',
          file_name = ''MEMORY.md'', date = None, body = Some ''zzz''\<rparr>"
  note inst = emitted_text_bounds
    [of "classify (\<lambda>ts. ts) ?e" ?e "''hi''" "replicate 2001 CHR ''a''"]
  from inst have a: "length (p_Name (build_properties (classify (\<lambda>ts. ts) ?e) ?e)) \<le> 100"
    by blast
  from inst c have b: "length (block_text (Paragraph ''hi'')) \<le> 2000"
    by auto
  from inst l have t: "(\<exists>n. 1001 < n \<and> n \<le> 2000 \<and>
          truncate_text (replicate 2001 CHR ''a'') MAX_BODY_LENGTH
            = strip (take n (replicate 2001 CHR ''a'')))
        \<or> truncate_text (replicate 2001 CHR ''a'') MAX_BODY_LENGTH
            = strip (take 1997 (replicate 2001 CHR ''a'')) @ ''...''"
    by blast
  from inst have u: "length (truncate_text (replicate 2001 CHR ''a'') MAX_BODY_LENGTH) \<le> 2000"
    by blast
  show ?thesis
    using a c b l t u by blast
qed

section \<open>Properties of the dispatch\<close>

lemma source_file_properties [simp]: "p_Source_File (build_properties meta e) = file_name e"
  by (simp add: build_properties_def)

lemma process_entry_None:
  "process_entry cl set_order st e dry_run = None \<longleftrightarrow>
   get_body e \<noteq> [] \<and> 50 < length (get_body e) \<and> convert (get_body e) = None"
  by (auto simp: process_entry_def Let_def split: option.splits prod.splits if_splits)

lemma process_entry_children:
  assumes "process_entry cl set_order st e dry_run \<noteq> None"
  shows "\<exists>ch. (if get_body e \<noteq> [] \<and> length (get_body e) > 50
               then map_option Some (convert (get_body e)) else Some None) = Some ch"
proof (cases "get_body e \<noteq> [] \<and> length (get_body e) > 50")
  case True
  with assms have "convert (get_body e) \<noteq> None"
    by (simp add: process_entry_None)
  then show ?thesis using True by auto
next
  case False
  then show ?thesis by auto
qed

lemma process_entry_update:
  assumes laws: "store_laws cl" and f: "found cl st (file_name e)"
    and ret: "process_entry cl set_order st e False \<noteq> None"
  shows "\<exists>st' d. process_entry cl set_order st e False
            = Some (st', [(UPDATED, d)], query_by_source_file cl st (file_name e))
          \<and> (\<forall>g. found cl st g \<longrightarrow> found cl st' g)"
proof -
  let ?p = "build_properties (classify set_order e) e"
  let ?i = "the (query_by_source_file cl st (file_name e))"
  obtain st' ok where u: "update_page cl st ?i ?p = (st', ok)"
    by (cases "update_page cl st ?i ?p")
  have fp: "found cl st (p_Source_File ?p)" using f by simp
  have ok: "ok"
    using laws fp u unfolding store_laws_def
    by (metis snd_conv source_file_properties)
  have pres: "\<forall>g. found cl st g \<longrightarrow> found cl st' g"
    using laws fp u unfolding store_laws_def
    by (metis fst_conv source_file_properties)
  from process_entry_children [OF ret] obtain ch where
    ch: "(if get_body e \<noteq> [] \<and> length (get_body e) > 50
               then map_option Some (convert (get_body e)) else Some None) = Some ch"
    by blast
  have "process_entry cl set_order st e False
      = Some (st', [(UPDATED, title e @ '' (page: '' @ ?i @ '')'')],
          query_by_source_file cl st (file_name e))"
    using f u ok ch unfolding process_entry_def Let_def found_def
    by (simp only: ch option.case if_False if_True prod.case)
  with pres show ?thesis by blast
qed

lemma process_entry_found:
  assumes laws: "store_laws cl"
    and pe: "process_entry cl set_order st e False = Some (st', l, pid)"
  shows "(\<forall>g. found cl st g \<longrightarrow> found cl st' g)
       \<and> ((\<forall>a\<in>set (map fst l). a = CREATED \<or> a = UPDATED) \<longrightarrow> found cl st' (file_name e))
       \<and> length l = 1"
proof (cases "found cl st (file_name e)")
  case True
  from process_entry_update [OF laws True, of set_order] pe
  obtain d where "st' = st'" and pres: "\<forall>g. found cl st g \<longrightarrow> found cl st' g" and l: "l = [(UPDATED, d)]"
    by auto
  then show ?thesis using True by simp
next
  case False
  let ?p = "build_properties (classify set_order e) e"
  from pe have "process_entry cl set_order st e False \<noteq> None" by simp
  from process_entry_children [OF this] obtain ch where
    ch: "(if get_body e \<noteq> [] \<and> length (get_body e) > 50
               then map_option Some (convert (get_body e)) else Some None) = Some ch"
    by blast
  obtain st2 pid2 where c: "create_page cl st ?p ch = (st2, pid2)"
    by (cases "create_page cl st ?p ch")
  have pe2: "process_entry cl set_order st e False =
      (if truthy pid2 then Some (st2, [(CREATED, title e @ '' (page: '' @ the pid2 @ '')'')], pid2)
       else Some (st2, [(CREATE_FAILED, title e)], pid2))"
    using False c unfolding process_entry_def Let_def found_def
    by (simp only: ch option.case if_False prod.case)
  have st: "st' = st2" and l: "l = (if truthy pid2
        then [(CREATED, title e @ '' (page: '' @ the pid2 @ '')'')]
        else [(CREATE_FAILED, title e)])"
    using pe pe2 by (auto split: if_splits)
  have pres: "\<forall>g. found cl st g \<longrightarrow> found cl st2 g"
    using laws c unfolding store_laws_def by (metis fst_conv)
  have new: "truthy pid2 \<Longrightarrow> found cl st2 (file_name e)"
    using laws c unfolding store_laws_def
    by (metis fst_conv snd_conv source_file_properties)
  show ?thesis
    using pres new unfolding st l by simp
qed

lemma sync_loop_log:
  "sync_loop cl set_order False es st lg sts = Some (st1, log1, sts1) \<Longrightarrow>
   \<exists>new. log1 = lg @ new \<and> length new = length es"
proof (induction es arbitrary: st lg sts)
  case Nil
  then show ?case by simp
next
  case (Cons e es)
  from Cons.prems obtain st' l pid where
    pe: "process_entry cl set_order st e False = Some (st', l, pid)"
    by (auto split: option.splits)
  have len: "length l = 1"
  proof (cases "found cl st (file_name e)")
    case True
    then show ?thesis
      using pe unfolding process_entry_def Let_def found_def
      by (auto split: option.splits prod.splits if_splits)
  next
    case False
    then show ?thesis
      using pe unfolding process_entry_def Let_def found_def
      by (auto split: option.splits prod.splits if_splits)
  qed
  from Cons.prems pe obtain sts' where
    "sync_loop cl set_order False es st' (lg @ l) sts' = Some (st1, log1, sts1)"
    by simp
  from Cons.IH [OF this] obtain new where "log1 = (lg @ l) @ new" "length new = length es"
    by blast
  then show ?case
    using len by (intro exI [of _ "l @ new"]) simp
qed

lemma sync_loop_first_run:
  assumes laws: "store_laws cl"
  shows "sync_loop cl set_order False es st lg sts = Some (st1, lg @ new, sts1) \<Longrightarrow>
   \<forall>a\<in>set (map fst new). a = CREATED \<or> a = UPDATED \<Longrightarrow>
   (\<forall>g. found cl st g \<longrightarrow> found cl st1 g)
   \<and> (\<forall>e\<in>set es. found cl st1 (file_name e))"
proof (induction es arbitrary: st lg sts new)
  case Nil
  then show ?case by simp
next
  case (Cons e es)
  from Cons.prems(1) obtain st' l pid where
    pe: "process_entry cl set_order st e False = Some (st', l, pid)"
    by (auto split: option.splits)
  from Cons.prems(1) pe obtain sts' where
    rest: "sync_loop cl set_order False es st' (lg @ l) sts' = Some (st1, lg @ new, sts1)"
    by simp
  from sync_loop_log [OF rest] obtain new' where
    n: "lg @ new = (lg @ l) @ new'"
    by blast
  then have new: "new = l @ new'" by simp
  have r: "sync_loop cl set_order False es st' (lg @ l) sts' = Some (st1, (lg @ l) @ new', sts1)"
    using rest n by simp
  have ok': "\<forall>a\<in>set (map fst new'). a = CREATED \<or> a = UPDATED"
    and okl: "\<forall>a\<in>set (map fst l). a = CREATED \<or> a = UPDATED"
    using Cons.prems(2) unfolding new by auto
  from Cons.IH [OF r ok'] have
    ih: "\<forall>g. found cl st' g \<longrightarrow> found cl st1 g" "\<forall>e\<in>set es. found cl st1 (file_name e)"
    by blast+
  from process_entry_found [OF laws pe] okl have
    p: "\<forall>g. found cl st g \<longrightarrow> found cl st' g" "found cl st' (file_name e)"
    by blast+
  show ?case
    using ih p by simp
qed

lemma sync_loop_returns:
  "sync_loop cl set_order d es st lg sts \<noteq> None \<Longrightarrow> e \<in> set es \<Longrightarrow>
   process_entry cl set_order st' e d' \<noteq> None"
proof (induction es arbitrary: st lg sts)
  case Nil
  then show ?case by simp
next
  case (Cons x es)
  from Cons.prems(1) obtain st2 l pid where
    pe: "process_entry cl set_order st x d = Some (st2, l, pid)"
    by (auto split: option.splits)
  show ?case
  proof (cases "e = x")
    case True
    have "process_entry cl set_order st x d \<noteq> None" using pe by simp
    then show ?thesis
      unfolding True process_entry_None .
  next
    case False
    with Cons.prems(2) have "e \<in> set es" by simp
    moreover from Cons.prems(1) pe obtain sts' where
      "sync_loop cl set_order d es st2 (lg @ l) sts' \<noteq> None"
      by simp
    ultimately show ?thesis
      by (rule Cons.IH [rotated])
  qed
qed

lemma sync_loop_second_run:
  assumes laws: "store_laws cl"
  shows "\<forall>e\<in>set es. found cl st (file_name e) \<Longrightarrow>
   \<forall>e\<in>set es. process_entry cl set_order st e False \<noteq> None \<Longrightarrow>
   \<exists>st2 new. sync_loop cl set_order False es st lg sts
       = Some (st2, lg @ new, sts\<lparr>updated := updated sts + length es\<rparr>)
     \<and> map fst new = replicate (length es) UPDATED"
proof (induction es arbitrary: st lg sts)
  case Nil
  then show ?case by simp
next
  case (Cons e es)
  have f: "found cl st (file_name e)" and ret: "process_entry cl set_order st e False \<noteq> None"
    using Cons.prems by simp_all
  from process_entry_update [OF laws f ret] obtain st' d where
    pe: "process_entry cl set_order st e False
            = Some (st', [(UPDATED, d)], query_by_source_file cl st (file_name e))"
    and pres: "\<forall>g. found cl st g \<longrightarrow> found cl st' g"
    by blast
  have f': "\<forall>e\<in>set es. found cl st' (file_name e)"
    using Cons.prems(1) pres by simp
  have ret': "\<forall>e\<in>set es. process_entry cl set_order st' e False \<noteq> None"
    using Cons.prems(2) by (simp add: process_entry_None)
  have t: "truthy (query_by_source_file cl st (file_name e))"
    "truthy (query_by_source_file cl st' (file_name e))"
    using f pres by (simp_all add: found_def)
  from Cons.IH [OF f' ret', of "lg @ [(UPDATED, d)]" "sts\<lparr>updated := updated sts + 1\<rparr>"]
  obtain st2 new where
    r: "sync_loop cl set_order False es st' (lg @ [(UPDATED, d)]) (sts\<lparr>updated := updated sts + 1\<rparr>)
       = Some (st2, (lg @ [(UPDATED, d)]) @ new,
           sts\<lparr>updated := updated sts + 1\<rparr>\<lparr>updated := updated (sts\<lparr>updated := updated sts + 1\<rparr>) + length es\<rparr>)"
    and m: "map fst new = replicate (length es) UPDATED"
    by blast
  have "sync_loop cl set_order False (e # es) st lg sts
       = Some (st2, lg @ (UPDATED, d) # new, sts\<lparr>updated := updated sts + length (e # es)\<rparr>)"
    using pe t r by simp
  then show ?case
    using m by (intro exI [of _ st2] exI [of _ "(UPDATED, d) # new"]) simp
qed

section \<open>The store of the examples\<close>

lemma page_id_of_inject: "page_id_of m = page_id_of n \<longleftrightarrow> m = n"
proof
  assume "page_id_of m = page_id_of n"
  then have "length (page_id_of m) = length (page_id_of n)" by simp
  then show "m = n" by (simp add: page_id_of_def)
qed simp

lemma truthy_page_id: "truthy (map_option page_id_of x) \<longleftrightarrow> x \<noteq> None"
  by (cases x) (simp_all add: truthy_def page_id_of_def)

lemma found_page_store:
  "found page_store st f \<longleftrightarrow> f \<in> p_Source_File ` set st"
proof -
  have "found page_store st f \<longleftrightarrow> (\<exists>n<length st. p_Source_File (st ! n) = f)"
    by (auto simp: found_def page_store_def truthy_page_id find_None_iff)
  also have "\<dots> \<longleftrightarrow> f \<in> p_Source_File ` set st"
    by (metis (no_types, lifting) image_iff in_set_conv_nth)
  finally show ?thesis .
qed

lemma find_app:
  "find P (xs @ ys) = (case find P xs of None \<Rightarrow> find P ys | Some x \<Rightarrow> Some x)"
  by (induction xs) simp_all

lemma find_page_id: "n < k \<Longrightarrow> find (\<lambda>m. page_id_of m = page_id_of n) [0..<k] = Some n"
proof (induction k)
  case 0
  then show ?case by simp
next
  case (Suc k)
  show ?case
  proof (cases "n < k")
    case True
    with Suc.IH show ?thesis by (simp add: find_app)
  next
    case False
    with Suc.prems have nk: "n = k" by simp
    have "find (\<lambda>m. page_id_of m = page_id_of k) [0..<k] = None"
      by (auto simp: find_None_iff page_id_of_inject)
    then show ?thesis
      unfolding nk by (simp add: find_app)
  qed
qed

lemma update_page_store:
  assumes "found page_store st (p_Source_File p)"
  shows "\<exists>n<length st. p_Source_File (st ! n) = p_Source_File p
         \<and> update_page page_store st
              (the (query_by_source_file page_store st (p_Source_File p))) p
            = (st[n := p], True)"
proof -
  from assms obtain n where
    n: "find (\<lambda>n. p_Source_File (st ! n) = p_Source_File p) [0..<length st] = Some n"
    by (auto simp: found_def page_store_def truthy_page_id)
  then have a: "n < length st" "p_Source_File (st ! n) = p_Source_File p"
    by (auto simp: find_Some_iff)
  have q: "the (query_by_source_file page_store st (p_Source_File p)) = page_id_of n"
    by (simp add: page_store_def n)
  have "update_page page_store st (page_id_of n) p = (st[n := p], True)"
    using find_page_id [OF a(1)] by (simp add: page_store_def)
  with a q show ?thesis by auto
qed

lemma store_laws_page_store: "store_laws page_store"
proof -
  have l1: "found page_store (fst (create_page page_store st p ch)) (p_Source_File p)" for st p ch
    by (simp add: found_page_store) (simp add: page_store_def)
  have l2: "found page_store st f \<Longrightarrow> found page_store (fst (create_page page_store st p ch)) f"
    for st p ch f
    by (simp add: found_page_store) (auto simp: page_store_def)
  have l3: "found page_store
              (fst (update_page page_store st
                 (the (query_by_source_file page_store st (p_Source_File p))) p)) f"
    and l4: "snd (update_page page_store st
                 (the (query_by_source_file page_store st (p_Source_File p))) p)"
    if fp: "found page_store st (p_Source_File p)" and ff: "found page_store st f" for st p f
  proof -
    from update_page_store [OF fp] obtain n where
      n: "n < length st" "p_Source_File (st ! n) = p_Source_File p"
        "update_page page_store st
              (the (query_by_source_file page_store st (p_Source_File p))) p = (st[n := p], True)"
      by blast
    have "map p_Source_File (st[n := p]) = map p_Source_File st"
      using n(1,2) by (metis list_update_id map_update nth_map)
    then have "p_Source_File ` set (st[n := p]) = p_Source_File ` set st"
      by (metis set_map)
    then show "found page_store
              (fst (update_page page_store st
                 (the (query_by_source_file page_store st (p_Source_File p))) p)) f"
      using ff by (simp add: n(3) found_page_store)
    show "snd (update_page page_store st
                 (the (query_by_source_file page_store st (p_Source_File p))) p)"
      by (simp add: n(3))
  qed
  show ?thesis
    unfolding store_laws_def using l1 l2 l3 l4 by blast
qed

text \<open>
  C10.  The claim: the second run on unchanged input produces zero creates and N
  updates, N being the number of entries the first run created.  The lookup is by file,
  so the first run creates one page per file and updates it for the further entries of
  the file: with two entries in MEMORY.md and an empty store the first run creates one
  page, and the second run makes two updates.
\<close>

theorem second_run_updates_exceed_created:
  "\<exists>st1 log1 sts1 st2 log2 sts2.
     sync page_store (\<lambda>ts. ts) (\<lambda>s. s)
       (map_of [(''MEMORY.md'', ''## Lesson\<newline>### A\<newline>x\<newline>### B\<newline>y'')]) [] False None []
       = Some (Inr (st1, log1, sts1))
     \<and> sync page_store (\<lambda>ts. ts) (\<lambda>s. s)
       (map_of [(''MEMORY.md'', ''## Lesson\<newline>### A\<newline>x\<newline>### B\<newline>y'')]) [] False None st1
       = Some (Inr (st2, log2, sts2))
     \<and> map fst log1 = [CREATED, UPDATED]
     \<and> map fst log2 = [UPDATED, UPDATED]"
proof -
  let ?fs = "map_of [(''MEMORY.md'', ''## Lesson\<newline>### A\<newline>x\<newline>### B\<newline>y'')]"
  let ?st = "[\<lparr>p_Name = ''B'', p_Content_Type = ''Insight'', p_Domain = ''General'',
       p_Certainty = ''Verified'', p_Source = ''MEMORY.md'', p_Confidence_Score = 8,
       p_Impact = ''Medium'', p_Source_File = ''MEMORY.md'', p_Tags = None, p_Body = None\<rparr>]"
  have r1: "sync page_store (\<lambda>ts. ts) (\<lambda>s. s) ?fs [] False None [] =
      Some (Inr (?st, [(CREATED, ''A (page: page-)''), (UPDATED, ''B (page: page-)'')],
        \<lparr>created = 0, updated = 2, failed = 0\<rparr>))"
    by code_simp
  have r2: "sync page_store (\<lambda>ts. ts) (\<lambda>s. s) ?fs [] False None ?st =
      Some (Inr (?st, [(UPDATED, ''A (page: page-)''), (UPDATED, ''B (page: page-)'')],
        \<lparr>created = 0, updated = 2, failed = 0\<rparr>))"
    by code_simp
  show ?thesis
    unfolding r1 by (intro exI conjI, rule refl, rule r2) simp_all
qed

text \<open>
  C10, as the code has it: if the first run returns and every dispatch of it returned a
  page (created or updated), then on a store that keeps its pages the second run on the
  unchanged input creates nothing and updates once per dispatched entry; that is more
  than the number of pages the first run created whenever a file has several entries.
\<close>

theorem resync_updates_every_entry:
  assumes "store_laws cl"
    and "sync cl set_order md5 fs date_strs False limit st0 = Some (Inr (st1, log1, sts1))"
    and "\<forall>a\<in>set (map fst log1). a = CREATED \<or> a = UPDATED"
  shows "\<exists>st2 log2.
           sync cl set_order md5 fs date_strs False limit st1
             = Some (Inr (st2, log2, \<lparr>created = 0, updated = length log1, failed = 0\<rparr>))
           \<and> map fst log2 = replicate (length log1) UPDATED"
proof -
  let ?z = "\<lparr>created = 0, updated = 0, failed = 0\<rparr>"
  from assms(2) obtain es where ex: "extract_all_entries md5 fs date_strs = Inr es"
    by (auto simp: sync_def split: sum.splits)
  let ?es = "limit_entries limit es"
  have run1: "sync_loop cl set_order False ?es st0 [] ?z = Some (st1, log1, sts1)"
    using assms(2) by (simp add: sync_def ex)
  from sync_loop_log [OF run1] have len: "length log1 = length ?es"
    by auto
  have run1': "sync_loop cl set_order False ?es st0 [] ?z = Some (st1, [] @ log1, sts1)"
    using run1 by simp
  from sync_loop_first_run [OF assms(1) run1' assms(3)]
  have f: "\<forall>e\<in>set ?es. found cl st1 (file_name e)"
    by blast
  have ret: "\<forall>e\<in>set ?es. process_entry cl set_order st1 e False \<noteq> None"
    using sync_loop_returns [of cl set_order False ?es st0 "[]" ?z] run1 by simp
  from sync_loop_second_run [OF assms(1) f ret, of "[]" ?z]
  obtain st2 new where
    "sync_loop cl set_order False ?es st1 [] ?z
       = Some (st2, [] @ new, ?z\<lparr>updated := updated ?z + length ?es\<rparr>)"
    "map fst new = replicate (length ?es) UPDATED"
    by blast
  then show ?thesis
    by (intro exI [of _ st2] exI [of _ new]) (simp add: sync_def ex len)
qed

theorem resync_updates_every_entry_witness:
  "store_laws page_store
   \<and> sync page_store (\<lambda>ts. ts) (\<lambda>s. s)
       (map_of [(''MEMORY.md'', ''## Lesson\<newline>### A\<newline>x''),
                (''memory/2024-01-02.md'', ''## Lesson\<newline>### B\<newline>y'')])
       [''2024-01-02''] False None []
     = Some (Inr
        ([\<lparr>p_Name = ''A'', p_Content_Type = ''Insight'', p_Domain = ''General'',
            p_Certainty = ''Verified'', p_Source = ''MEMORY.md'', p_Confidence_Score = 8,
            p_Impact = ''Medium'', p_Source_File = ''MEMORY.md'', p_Tags = None,
            p_Body = None\<rparr>,
          \<lparr>p_Name = ''B'', p_Content_Type = ''Insight'', p_Domain = ''General'',
            p_Certainty = ''Verified'', p_Source = ''daily'', p_Confidence_Score = 7,
            p_Impact = ''Medium'', p_Source_File = ''2024-01-02.md'', p_Tags = None,
            p_Body = None\<rparr>],
         [(CREATED, ''A (page: page-)''), (CREATED, ''B (page: page-i)'')],
         \<lparr>created = 0, updated = 2, failed = 0\<rparr>))
   \<and> (\<exists>st2 log2.
         sync page_store (\<lambda>ts. ts) (\<lambda>s. s)
           (map_of [(''MEMORY.md'', ''## Lesson\<newline>### A\<newline>x''),
                    (''memory/2024-01-02.md'', ''## Lesson\<newline>### B\<newline>y'')])
           [''2024-01-02''] False None
           [\<lparr>p_Name = ''A'', p_Content_Type = ''Insight'', p_Domain = ''General'',
              p_Certainty = ''Verified'', p_Source = ''MEMORY.md'', p_Confidence_Score = 8,
              p_Impact = ''Medium'', p_Source_File = ''MEMORY.md'', p_Tags = None,
              p_Body = None\<rparr>,
            \<lparr>p_Name = ''B'', p_Content_Type = ''Insight'', p_Domain = ''General'',
              p_Certainty = ''Verified'', p_Source = ''daily'', p_Confidence_Score = 7,
              p_Impact = ''Medium'', p_Source_File = ''2024-01-02.md'', p_Tags = None,
              p_Body = None\<rparr>]
           = Some (Inr (st2, log2, \<lparr>created = 0, updated = 2, failed = 0\<rparr>))
         \<and> map fst log2 = [UPDATED, UPDATED])"
proof -
  let ?fs = "map_of [(''MEMORY.md'', ''## Lesson\<newline>### A\<newline>x''),
                (''memory/2024-01-02.md'', ''## Lesson\<newline>### B\<newline>y'')]"
  let ?st = "[\<lparr>p_Name = ''A'', p_Content_Type = ''Insight'', p_Domain = ''General'',
            p_Certainty = ''Verified'', p_Source = ''MEMORY.md'', p_Confidence_Score = 8,
            p_Impact = ''Medium'', p_Source_File = ''MEMORY.md'', p_Tags = None,
            p_Body = None\<rparr>,
          \<lparr>p_Name = ''B'', p_Content_Type = ''Insight'', p_Domain = ''General'',
            p_Certainty = ''Verified'', p_Source = ''daily'', p_Confidence_Score = 7,
            p_Impact = ''Medium'', p_Source_File = ''2024-01-02.md'', p_Tags = None,
            p_Body = None\<rparr>]"
  let ?log = "[(CREATED, ''A (page: page-)''), (CREATED, ''B (page: page-i)'')]"
  have r1: "sync page_store (\<lambda>ts. ts) (\<lambda>s. s) ?fs [''2024-01-02''] False None [] =
      Some (Inr (?st, ?log, \<lparr>created = 0, updated = 2, failed = 0\<rparr>))"
    by code_simp
  have ok: "\<forall>a\<in>set (map fst ?log). a = CREATED \<or> a = UPDATED" by simp
  from resync_updates_every_entry [OF store_laws_page_store r1 ok]
  have "\<exists>st2 log2.
         sync page_store (\<lambda>ts. ts) (\<lambda>s. s) ?fs [''2024-01-02''] False None ?st
           = Some (Inr (st2, log2, \<lparr>created = 0, updated = 2, failed = 0\<rparr>))
         \<and> map fst log2 = [UPDATED, UPDATED]"
    by (simp add: numeral_2_eq_2)
  then show ?thesis
    using store_laws_page_store r1 by blast
qed

end
